theory Spec2Isabelle
  imports Main "HOL-Library.Sublist"
begin

section \<open>Strings and arrays as the plugin uses them\<close>

text \<open>
  Strings are lists of characters. The JavaScript built-ins that \<open>main.ts\<close> calls are
  written out here with the behaviour ECMAScript gives them on the arguments the plugin
  passes: \<open>split\<close> and \<open>join\<close> on a one-character separator, \<open>includes\<close>,
  \<open>startsWith\<close> (\<^const>\<open>prefix\<close>), \<open>replace\<close> with a string pattern, and
  \<open>Array.prototype.splice\<close>. White space is the ASCII part of the class \<open>\s\<close> and
  \<open>toLowerCase\<close> maps the letters A to Z; characters outside ASCII are not modelled.
\<close>

abbreviation newline :: char where
  "newline \<equiv> CHR 0x0A"

definition is_space :: "char \<Rightarrow> bool" where
  "is_space c = (c \<in> set [CHR 0x09, CHR 0x0A, CHR 0x0B, CHR 0x0C, CHR 0x0D, CHR 0x20])"

text \<open>\<open>s.replace(/\s/g, "")\<close>\<close>

definition remove_spaces :: "string \<Rightarrow> string" where
  "remove_spaces s = filter (\<lambda>c. \<not> is_space c) s"

text \<open>\<open>s.split(sep)\<close> for a separator of one character: the empty string gives \<open>[""]\<close>.\<close>

fun split_on :: "char \<Rightarrow> string \<Rightarrow> string list" where
  "split_on sep [] = [[]]"
| "split_on sep (c # s) =
     (if c = sep then [] # split_on sep s
      else (case split_on sep s of
              [] \<Rightarrow> [[c]]
            | l # ls \<Rightarrow> (c # l) # ls))"

text \<open>\<open>lines.join(sep)\<close>\<close>

fun join :: "string \<Rightarrow> string list \<Rightarrow> string" where
  "join sep [] = []"
| "join sep [l] = l"
| "join sep (l # m # ls) = l @ sep @ join sep (m # ls)"

text \<open>\<open>s.includes(t)\<close>\<close>

fun str_includes :: "string \<Rightarrow> string \<Rightarrow> bool" where
  "str_includes [] t = (t = [])"
| "str_includes (c # s) t = (prefix t (c # s) \<or> str_includes s t)"

definition toLowerCase_char :: "char \<Rightarrow> char" where
  "toLowerCase_char c =
     (case map_of (zip ''ABCDEFGHIJKLMNOPQRSTUVWXYZ'' ''abcdefghijklmnopqrstuvwxyz'') c of
        None \<Rightarrow> c
      | Some l \<Rightarrow> l)"

definition toLowerCase :: "string \<Rightarrow> string" where
  "toLowerCase s = map toLowerCase_char s"

text \<open>
  The replacement text of \<open>String.prototype.replace\<close> (ECMAScript's GetSubstitution) for
  a string pattern, which has no capture groups: \<open>$$\<close> stands for a dollar sign,
  \<open>$&\<close> for the matched text, \<open>$\<close> followed by a backquote for the text before the
  match, \<open>$\<close> followed by an apostrophe for the text after it; every other character,
  a dollar sign before anything else included, stands for itself.
\<close>

fun getSubstitution :: "string \<Rightarrow> string \<Rightarrow> string \<Rightarrow> string \<Rightarrow> string" where
  "getSubstitution matched preceding following [] = []"
| "getSubstitution matched preceding following [c] = [c]"
| "getSubstitution matched preceding following (c # d # r) =
     (if c = CHR 0x24 \<and> d = CHR 0x24 then CHR 0x24 # getSubstitution matched preceding following r
      else if c = CHR 0x24 \<and> d = CHR 0x26 then matched @ getSubstitution matched preceding following r
      else if c = CHR 0x24 \<and> d = CHR 0x60 then preceding @ getSubstitution matched preceding following r
      else if c = CHR 0x24 \<and> d = CHR 0x27 then following @ getSubstitution matched preceding following r
      else c # getSubstitution matched preceding following (d # r))"

text \<open>
  \<open>s.replace(pattern, replacement)\<close> with a string pattern: only the first occurrence of
  the pattern, found scanning from the left, is replaced. \<open>preceding\<close> collects the text
  already scanned.
\<close>

fun replace_from :: "string \<Rightarrow> string \<Rightarrow> string \<Rightarrow> string \<Rightarrow> string" where
  "replace_from pattern replacement preceding [] =
     (if pattern = [] then preceding @ getSubstitution pattern preceding [] replacement else preceding)"
| "replace_from pattern replacement preceding (c # s) =
     (if prefix pattern (c # s)
      then preceding
           @ getSubstitution pattern preceding (drop (length pattern) (c # s)) replacement
           @ drop (length pattern) (c # s)
      else replace_from pattern replacement (preceding @ [c]) s)"

definition js_replace :: "string \<Rightarrow> string \<Rightarrow> string \<Rightarrow> string" where
  "js_replace pattern replacement s = replace_from pattern replacement [] s"

text \<open>
  \<open>xs.splice(start, deleteCount, ...items)\<close> for a start that is not negative: the start
  is clamped to the length, the count to the range from zero to what is left.
\<close>

definition js_splice :: "nat \<Rightarrow> int \<Rightarrow> 'a list \<Rightarrow> 'a list \<Rightarrow> 'a list" where
  "js_splice start deleteCount items xs =
     (let len = length xs;
          actualStart = min start len;
          actualDeleteCount = min (nat (max deleteCount 0)) (len - actualStart)
      in take actualStart xs @ items @ drop (actualStart + actualDeleteCount) xs)"

section \<open>Settings, host data and the plugin's world\<close>

text \<open>
  The persisted settings record (\<open>ListModifiedSettings\<close>), with the fields \<open>main.ts\<close>
  reads and writes.
\<close>

record ListModifiedSettings =
  writeInterval :: int
  heading :: string
  outputFormat :: string
  tags :: string
  excludedFolders :: string
  ignoredNameContains :: string
  automaticallyCreateDailyNote :: bool
  trackedFiles :: "string list"
  lastTrackedDate :: string

text \<open>
  A heading of the metadata cache (\<open>HeadingCache\<close>): its text, its level and the lines
  \<open>position.start.line\<close> and \<open>position.end.line\<close>, counted from zero.
\<close>

record HeadingCache =
  hc_heading :: string
  hc_level :: nat
  position_start_line :: nat
  position_end_line :: nat

text \<open>
  What the host gives for a file of the vault (\<open>TFile\<close>): its \<open>basename\<close>, the path of
  its parent folder, the link \<open>fileManager.generateMarkdownLink\<close> builds for it from the
  daily note, its tags (\<open>getAllTags\<close> of its cache) and its creation time as
  \<open>moment(file.stat.ctime).format("YYYY-MM-DD")\<close> prints it.
\<close>

record TFile =
  basename :: string
  parent_path :: string
  markdown_link :: string
  all_tags :: "string list"
  ctime_ymd :: string

datatype TAbstractFile = File string | Folder string

text \<open>The arguments of a metadata-cache \<open>changed\<close> event: the file and its tags.\<close>

record cache_event =
  ev_path :: string
  ev_basename :: string
  ev_tags :: "string list"

datatype error =
  TypeError
| HostError string

datatype vault_op =
  Append string
| Modify string

text \<open>
  The state a handler runs in. \<open>settings\<close> and \<open>writeIntervalInMs\<close> are the plugin's own
  fields. The rest is the host: \<open>today\<close> is \<open>moment().format("YYYY-MM-DD")\<close>;
  \<open>lookup_error\<close> is the message of the exception \<open>getAllDailyNotes\<close> raises, if it
  raises one; \<open>daily_note\<close> is the text of today's daily note at \<open>daily_path\<close>, if the note
  exists; \<open>daily_headings\<close> is \<open>metadataCache.getFileCache(dailyNote)?.headings\<close>;
  \<open>create_result\<close> is what \<open>createDailyNote\<close> would produce: nothing when it fails, else
  the text of the new note and the headings its cache shows (the note and its folder
  then exist, so later lookups find it); \<open>vault_files\<close> is
  \<open>vault.getAbstractFileByPath\<close>. \<open>notices\<close>, \<open>console\<close>, \<open>saved\<close> and
  \<open>vault_ops\<close> log the notices shown, the console errors, the settings passed to
  \<open>saveData\<close> and the texts passed to \<open>vault.append\<close> and \<open>vault.modify\<close>.
  \<open>pending\<close> is the queue of \<open>updateTrackedFiles\<close> invocations that \<open>serialize\<close>
  holds back until the running one has finished, each with its \<open>doWrite\<close> argument.
\<close>

record world =
  settings :: ListModifiedSettings
  writeIntervalInMs :: int
  today :: string
  daily_path :: string
  lookup_error :: "string option"
  daily_note :: "string option"
  daily_headings :: "HeadingCache list option"
  create_result :: "(string \<times> HeadingCache list option) option"
  vault_files :: "(string \<times> TFile) list"
  notices :: "string list"
  console :: "string list"
  saved :: "ListModifiedSettings list"
  vault_ops :: "vault_op list"
  pending :: "bool list"

text \<open>\<open>onload\<close>, lines 26 to 28: the interval in milliseconds.\<close>

definition onload :: "world \<Rightarrow> world" where
  "onload w = w\<lparr>writeIntervalInMs := writeInterval (settings w) * 1000\<rparr>"

definition saveSettings :: "world \<Rightarrow> world" where
  "saveSettings w = w\<lparr>saved := saved w @ [settings w]\<rparr>"

definition displayNotice :: "string \<Rightarrow> world \<Rightarrow> world" where
  "displayNotice message w =
     w\<lparr>notices := notices w @ [''[Obsidian List Modified] '' @ message]\<rparr>"

text \<open>
  \<open>getDailyNote(moment(), getAllDailyNotes())\<close>: an exception, or whether today's note
  exists (the call returns \<open>null\<close> when it does not).
\<close>

definition getDailyNote :: "world \<Rightarrow> error + bool" where
  "getDailyNote w =
     (case lookup_error w of
        Some m \<Rightarrow> Inl (HostError m)
      | None \<Rightarrow> Inr (daily_note w \<noteq> None))"

definition getAbstractFileByPath :: "world \<Rightarrow> string \<Rightarrow> TFile option" where
  "getAbstractFileByPath w p = map_of (vault_files w) p"

definition vault_append :: "string \<Rightarrow> world \<Rightarrow> world" where
  "vault_append s w =
     w\<lparr>daily_note := map_option (\<lambda>old. old @ s) (daily_note w),
       vault_ops := vault_ops w @ [Append s]\<rparr>"

definition vault_modify :: "string \<Rightarrow> world \<Rightarrow> world" where
  "vault_modify s w =
     w\<lparr>daily_note := map_option (\<lambda>old. s) (daily_note w),
       vault_ops := vault_ops w @ [Modify s]\<rparr>"

section \<open>The formatter\<close>

text \<open>
  \<open>getFormattedOutput\<close>, lines 240 to 259. The arguments of the four \<open>replace\<close> calls
  are computed whether or not the template holds the placeholder: the daily note is
  looked up for its path, and \<open>file.basename\<close> is read. A path that resolves to no file
  makes \<open>file\<close> null, and reading a property of it raises a \<open>TypeError\<close>; nothing in
  the function catches it.
\<close>

definition getFormattedOutput :: "world \<Rightarrow> string \<Rightarrow> error + string" where
  "getFormattedOutput w path =
     (case getDailyNote w of
        Inl e \<Rightarrow> Inl e
      | Inr found \<Rightarrow>
          if \<not> found then Inl TypeError
          else (case getAbstractFileByPath w path of
                  None \<Rightarrow> Inl TypeError
                | Some file \<Rightarrow>
                    Inr (js_replace ''[[ctime]]'' (ctime_ymd file)
                          (js_replace ''[[tags]]''
                             (join '', '' (map (\<lambda>tag. CHR 0x5C # tag) (all_tags file)))
                             (js_replace ''[[name]]'' (basename file)
                                (js_replace ''[[link]]'' (markdown_link file)
                                   (outputFormat (settings w))))))))"

text \<open>
  \<open>this.settings.trackedFiles.map((path) => this.getFormattedOutput(path))\<close>: the first
  exception ends the map.
\<close>

fun format_all :: "world \<Rightarrow> string list \<Rightarrow> error + string list" where
  "format_all w [] = Inr []"
| "format_all w (p # ps) =
     (case getFormattedOutput w p of
        Inl e \<Rightarrow> Inl e
      | Inr l \<Rightarrow> (case format_all w ps of
                    Inl e \<Rightarrow> Inl e
                  | Inr ls \<Rightarrow> Inr (l # ls)))"

section \<open>The write routine\<close>

text \<open>
  Lines 157 to 173 of \<open>updateTrackedFiles\<close>: the daily note is looked up; an exception
  shows a notice and logs the message. When there is no note, it is created if the
  settings say so, and then, whether or not it was created, \<open>this.updateTrackedFiles()\<close>
  is called again without \<open>await\<close>: the call joins the queue of \<open>serialize\<close> and runs
  after this one. Execution goes on after the call. The result says whether
  \<open>dailyNote\<close> holds a file.
\<close>

definition createDailyNote :: "world \<Rightarrow> world \<times> bool" where
  "createDailyNote w =
     (case create_result w of
        None \<Rightarrow> (w, False)
      | Some (text, hs) \<Rightarrow>
          (w\<lparr>lookup_error := None, daily_note := Some text, daily_headings := hs\<rparr>, True))"

definition resolveDailyNote :: "world \<Rightarrow> world \<times> bool" where
  "resolveDailyNote w =
     (let (w1, found) =
            (case getDailyNote w of
               Inl e \<Rightarrow>
                 (w\<lparr>notices := notices w @ [''Unable to load daily note. See console for details.''],
                    console := console w @ [case e of HostError m \<Rightarrow> m | TypeError \<Rightarrow> []]\<rparr>,
                  False)
             | Inr b \<Rightarrow> (w, b))
      in if found then (w1, True)
         else
           (let (w2, created) =
                  (if automaticallyCreateDailyNote (settings w1)
                   then createDailyNote
                          (displayNotice ''Creating daily note since it did not exist...'' w1)
                   else (w1, False))
            in (w2\<lparr>pending := pending w2 @ [False]\<rparr>, created)))"

text \<open>
  The loop of lines 212 to 237 over the headings of the cache. The list is what is left
  of \<open>currentHeadings\<close> from index \<open>i\<close> on, so its second element is
  \<open>currentHeadings[i + 1]\<close>. \<open>content\<close> is the array of lines, changed in place by
  \<open>splice\<close> and carried to the next round; the loop has no \<open>break\<close>. The rendered lines
  are the arguments of \<open>splice\<close>, so an exception of the formatter comes before the
  array changes. \<open>vault.modify\<close> is called in every round that matches.
\<close>

fun replace_regions :: "HeadingCache list \<Rightarrow> string list \<Rightarrow> world \<Rightarrow> world \<times> error option" where
  "replace_regions [] content w = (w, None)"
| "replace_regions (h # hs) content w =
     (if hc_heading h = heading (settings w)
      then (case format_all w (trackedFiles (settings w)) of
              Inl e \<Rightarrow> (w, Some e)
            | Inr items \<Rightarrow>
                (let startPos = position_end_line h + 1;
                     endPos = (case hs of
                                 [] \<Rightarrow> int (length content)
                               | n # _ \<Rightarrow> int (position_start_line n) - 1);
                     content' = js_splice startPos (endPos - int startPos) items content
                 in replace_regions hs content' (vault_modify (join [newline] content') w)))
      else replace_regions hs content w)"

text \<open>
  Lines 183 to 204: the notice, then \<open>vault.append\<close> of an empty line, the heading
  line and the rendered list, then \<open>saveSettings\<close>. The rendered list is part of the
  argument of \<open>append\<close>, so an exception of the formatter comes before the call.
\<close>

definition append_heading_section :: "world \<Rightarrow> world \<times> error option" where
  "append_heading_section w =
     (let w1 = displayNotice
                 ''Cannot find the designated heading in your file. Creating a default one for now...''
                 w
      in case format_all w1 (trackedFiles (settings w1)) of
           Inl e \<Rightarrow> (w1, Some e)
         | Inr items \<Rightarrow>
             (saveSettings
                (vault_append
                   ([newline] @ ''# '' @ heading (settings w1) @ [newline] @ join [newline] items)
                   w1),
              None))"

text \<open>
  Lines 175 to 237, reached with a file in \<open>dailyNote\<close>: the cache and the text are
  read, then comes the branch that appends the heading, the test of the write interval,
  and the loop. The first case, a file without a text, does not arise after
  \<open>resolveDailyNote\<close> has found or created the note.
\<close>

definition write_tracked :: "bool \<Rightarrow> world \<Rightarrow> world \<times> error option" where
  "write_tracked doWrite w =
     (case daily_note w of
        None \<Rightarrow> (w, Some TypeError)
      | Some content \<Rightarrow>
          (case daily_headings w of
             None \<Rightarrow> append_heading_section w
           | Some currentHeadings \<Rightarrow>
               if heading (settings w) = [] then append_heading_section w
               else if writeIntervalInMs w \<noteq> 0 \<and> \<not> doWrite then (w, None)
               else replace_regions currentHeadings (split_on newline content) w))"

text \<open>
  \<open>updateTrackedFiles\<close>, lines 154 to 238, as one run of its body. When \<open>dailyNote\<close> is
  still undefined at line 175, the host is handed no file to read: the run ends with a
  \<open>TypeError\<close>. The result is the world after the run and the exception that ended it,
  if one did.
\<close>

definition updateTrackedFiles :: "bool \<Rightarrow> world \<Rightarrow> world \<times> error option" where
  "updateTrackedFiles doWrite w0 =
     (case resolveDailyNote (saveSettings w0) of
        (w, found) \<Rightarrow> if found then write_tracked doWrite w else (w, Some TypeError))"

text \<open>
  The queue of \<open>serialize\<close>: the pending invocations run one after the other, each after
  the one before it has finished, whether it returned or raised. \<open>drain n w\<close> runs at
  most \<open>n\<close> of them; it is \<open>None\<close> when the queue is not empty after \<open>n\<close> runs.
\<close>

fun drain :: "nat \<Rightarrow> world \<Rightarrow> world option" where
  "drain 0 w = (case pending w of [] \<Rightarrow> Some w | doWrite # rest \<Rightarrow> None)"
| "drain (Suc k) w =
     (case pending w of
        [] \<Rightarrow> Some w
      | doWrite # rest \<Rightarrow> drain k (fst (updateTrackedFiles doWrite (w\<lparr>pending := rest\<rparr>))))"

section \<open>The filters\<close>

text \<open>\<open>noteTitleContainsIgnoredText\<close>, lines 89 to 102.\<close>

definition noteTitleContainsIgnoredText :: "world \<Rightarrow> string \<Rightarrow> bool" where
  "noteTitleContainsIgnoredText w noteTitle =
     list_ex
       (\<lambda>ignoredText.
          let title = toLowerCase noteTitle;
              lowered = toLowerCase ignoredText
          in if lowered = [] then False else str_includes title lowered)
       (split_on (CHR '','') (remove_spaces (ignoredNameContains (settings w))))"

text \<open>
  \<open>cacheContainsIgnoredTag\<close>, lines 104 to 110; \<open>currentFileTags\<close> is
  \<open>getAllTags(cache)\<close>.
\<close>

definition cacheContainsIgnoredTag :: "world \<Rightarrow> string list \<Rightarrow> bool" where
  "cacheContainsIgnoredTag w currentFileTags =
     list_ex (\<lambda>ignoredTag. ignoredTag \<in> set currentFileTags)
       (split_on (CHR '','') (remove_spaces (tags (settings w))))"

text \<open>
  The regular expression \<open>/\s*, | \s*,/\<close> of line 116, tried at the start of a string:
  white space, a comma and a space, or else a space, white space and a comma. The
  result is the text after the match.
\<close>

definition match_separator :: "string \<Rightarrow> string option" where
  "match_separator s =
     (let second = (case s of
                      [] \<Rightarrow> None
                    | c # t \<Rightarrow>
                        if c = CHR 0x20
                        then (case dropWhile is_space t of
                                [] \<Rightarrow> None
                              | d # r \<Rightarrow> if d = CHR '','' then Some r else None)
                        else None)
      in case dropWhile is_space s of
           [] \<Rightarrow> second
         | [c] \<Rightarrow> second
         | c # d # r \<Rightarrow> if c = CHR '','' \<and> d = CHR 0x20 then Some r else second)"

text \<open>
  \<open>excludedFolders.replace(/\s*, | \s*,/, ",")\<close>: the expression has no \<open>g\<close> flag, so
  only the leftmost match is replaced.
\<close>

fun replace_first_separator :: "string \<Rightarrow> string" where
  "replace_first_separator [] = []"
| "replace_first_separator (c # s) =
     (case match_separator (c # s) of
        Some r \<Rightarrow> CHR '','' # r
      | None \<Rightarrow> c # replace_first_separator s)"

text \<open>\<open>item.replace(/^\/|\/$/g, "")\<close>: one slash at the start and one at the end go.\<close>

definition strip_slashes :: "string \<Rightarrow> string" where
  "strip_slashes item =
     (let s1 = (case item of
                  [] \<Rightarrow> item
                | c # r \<Rightarrow> if c = CHR ''/'' then r else item)
      in if s1 \<noteq> [] \<and> last s1 = CHR ''/'' then butlast s1 else s1)"

text \<open>
  \<open>pathIsExcluded\<close>, lines 112 to 126. \<open>getAbstractFileByPath(path).parent.path\<close> raises
  a \<open>TypeError\<close> when the path resolves to no file.
\<close>

definition pathIsExcluded :: "world \<Rightarrow> string \<Rightarrow> error + bool" where
  "pathIsExcluded w path =
     (if excludedFolders (settings w) = [] then Inr False
      else (case getAbstractFileByPath w path of
              None \<Rightarrow> Inl TypeError
            | Some file \<Rightarrow>
                Inr (list_ex (\<lambda>excludedFolder. prefix excludedFolder (parent_path file))
                       (map strip_slashes
                          (split_on (CHR '','')
                             (replace_first_separator (excludedFolders (settings w))))))))"

section \<open>The event handlers\<close>

text \<open>
  The two conditions of \<open>onCacheChange\<close>, lines 68 to 73 and 77 to 81, on the array
  \<open>tracked\<close> that the handler's constant \<open>trackedFiles\<close> is bound to. \<open>&&\<close> and
  \<open>||\<close> evaluate from the left and stop as soon as the result is known, so
  \<open>pathIsExcluded\<close> raises only where it is reached.
\<close>

definition add_condition :: "world \<Rightarrow> string list \<Rightarrow> cache_event \<Rightarrow> error + bool" where
  "add_condition w tracked ev =
     (if ev_path ev \<in> set tracked then Inr False
      else if cacheContainsIgnoredTag w (ev_tags ev) then Inr False
      else (case pathIsExcluded w (ev_path ev) of
              Inl e \<Rightarrow> Inl e
            | Inr excluded \<Rightarrow>
                Inr (\<not> excluded \<and> \<not> noteTitleContainsIgnoredText w (ev_basename ev))))"

definition remove_condition :: "world \<Rightarrow> string list \<Rightarrow> cache_event \<Rightarrow> error + bool" where
  "remove_condition w tracked ev =
     (if ev_path ev \<in> set tracked \<and> cacheContainsIgnoredTag w (ev_tags ev) then Inr True
      else (case pathIsExcluded w (ev_path ev) of
              Inl e \<Rightarrow> Inl e
            | Inr excluded \<Rightarrow>
                Inr (excluded \<or> noteTitleContainsIgnoredText w (ev_basename ev))))"

text \<open>
  The constant \<open>trackedFiles\<close> of line 51 is bound to the array the settings hold when
  the handler starts. \<open>push\<close> and \<open>remove\<close> change that array: the settings see the
  change unless line 57 has given them a new, empty array in the meantime.
\<close>

definition store_tracked :: "bool \<Rightarrow> string list \<Rightarrow> world \<Rightarrow> world" where
  "store_tracked rolled tracked w =
     (if rolled then w else w\<lparr>settings := (settings w)\<lparr>trackedFiles := tracked\<rparr>\<rparr>)"

text \<open>
  \<open>onCacheChange\<close>, lines 49 to 87. An \<open>await\<close> of \<open>updateTrackedFiles\<close> is one run
  of its body, taken when the routine's queue is idle; an exception of the run ends the
  handler. Obsidian's \<open>Array.prototype.remove\<close> takes out every element equal to its
  argument.
\<close>

definition onCacheChange :: "cache_event \<Rightarrow> world \<Rightarrow> world \<times> error option" where
  "onCacheChange ev w0 =
     (let tracked = trackedFiles (settings w0);
          currentDate = today w0;
          rolled = (lastTrackedDate (settings w0) \<noteq> currentDate)
      in case (if rolled then updateTrackedFiles False w0 else (w0, None)) of
           (w1, Some e) \<Rightarrow> (w1, Some e)
         | (w1, None) \<Rightarrow>
             (let w2 = (if rolled
                        then w1\<lparr>settings :=
                                  (settings w1)\<lparr>trackedFiles := [],
                                                 lastTrackedDate := currentDate\<rparr>\<rparr>
                        else w1)
              in case getDailyNote w2 of
                   Inl e \<Rightarrow> (w2, Some e)
                 | Inr found \<Rightarrow>
                     if found \<and> ev_path ev = daily_path w2 then (w2, None)
                     else (case add_condition w2 tracked ev of
                             Inl e \<Rightarrow> (w2, Some e)
                           | Inr add \<Rightarrow>
                               (let pushed = (if add then tracked @ [ev_path ev] else tracked);
                                    w3 = store_tracked rolled pushed w2
                                in case remove_condition w3 pushed ev of
                                     Inl e \<Rightarrow> (w3, Some e)
                                   | Inr remove \<Rightarrow>
                                       updateTrackedFiles False
                                         (store_tracked rolled
                                            (if remove then removeAll (ev_path ev) pushed
                                             else pushed)
                                            w3)))))"

text \<open>\<open>onVaultDelete\<close>, lines 128 to 135.\<close>

definition onVaultDelete :: "TAbstractFile \<Rightarrow> world \<Rightarrow> world \<times> error option" where
  "onVaultDelete file w =
     (case file of
        Folder p \<Rightarrow> (w, None)
      | File p \<Rightarrow>
          if p \<in> set (trackedFiles (settings w))
          then updateTrackedFiles False
                 (w\<lparr>settings :=
                      (settings w)\<lparr>trackedFiles := removeAll p (trackedFiles (settings w))\<rparr>\<rparr>)
          else (w, None))"

text \<open>
  \<open>onVaultRename\<close>, lines 137 to 152. The new path is pushed without a look at what
  the array holds.
\<close>

definition onVaultRename :: "TAbstractFile \<Rightarrow> string \<Rightarrow> world \<Rightarrow> world \<times> error option" where
  "onVaultRename file oldPath w =
     (case file of
        Folder p \<Rightarrow> (w, None)
      | File p \<Rightarrow>
          if oldPath \<in> set (trackedFiles (settings w))
          then (let w1 = saveSettings
                           (w\<lparr>settings :=
                                (settings w)\<lparr>trackedFiles :=
                                               removeAll oldPath (trackedFiles (settings w)) @ [p]\<rparr>\<rparr>)
                in if \<not> str_includes (outputFormat (settings w1)) ''[[link]]''
                   then updateTrackedFiles False w1
                   else (w1, None))
          else (w, None))"

section \<open>Example worlds\<close>

text \<open>
  The worlds the examples below run in: a vault with the notes \<open>a.md\<close>, \<open>b.md\<close> and
  \<open>c.md\<close>, the heading name \<open>Heading\<close>, the template \<open>- [[name]]\<close>, no write
  interval, and a daily note of five lines with the headings \<open>Heading\<close> on line 0 and
  \<open>Next\<close> on line 3.
\<close>

definition example_settings :: ListModifiedSettings where
  "example_settings =
     \<lparr>writeInterval = 0, heading = ''Heading'', outputFormat = ''- [[name]]'', tags = [],
      excludedFolders = [], ignoredNameContains = [], automaticallyCreateDailyNote = False,
      trackedFiles = [''c.md''], lastTrackedDate = ''2024-01-02''\<rparr>"

definition example_file :: "string \<Rightarrow> TFile" where
  "example_file name =
     \<lparr>basename = name, parent_path = ''/'', markdown_link = ''[['' @ name @ '']]'',
      all_tags = [], ctime_ymd = ''2023-05-01''\<rparr>"

definition heading_at :: "string \<Rightarrow> nat \<Rightarrow> HeadingCache" where
  "heading_at t n =
     \<lparr>hc_heading = t, hc_level = 1, position_start_line = n, position_end_line = n\<rparr>"

definition example_world :: world where
  "example_world =
     \<lparr>settings = example_settings, writeIntervalInMs = 0, today = ''2024-01-02'',
      daily_path = ''2024-01-02.md'', lookup_error = None,
      daily_note = Some (join [newline] [''# Heading'', ''old1'', ''old2'', ''# Next'', ''x'']),
      daily_headings = Some [heading_at ''Heading'' 0, heading_at ''Next'' 3],
      create_result = None,
      vault_files = [(''a.md'', example_file ''a''), (''b.md'', example_file ''b''),
                     (''c.md'', example_file ''c'')],
      notices = [], console = [], saved = [], vault_ops = [], pending = []\<rparr>"

definition with_tracked :: "string list \<Rightarrow> world \<Rightarrow> world" where
  "with_tracked ps w = w\<lparr>settings := (settings w)\<lparr>trackedFiles := ps\<rparr>\<rparr>"

definition with_note :: "string list \<Rightarrow> HeadingCache list \<Rightarrow> world \<Rightarrow> world" where
  "with_note ls hs w = w\<lparr>daily_note := Some (join [newline] ls), daily_headings := Some hs\<rparr>"

definition no_note_world :: world where
  "no_note_world = example_world\<lparr>daily_note := None, daily_headings := None\<rparr>"

definition example_event :: cache_event where
  "example_event = \<lparr>ev_path = ''c.md'', ev_basename = ''c'', ev_tags = []\<rparr>"

text \<open>
  The day has changed: the set \<open>a.md\<close>, \<open>b.md\<close> is dated 2024-01-01 and today is
  2024-01-02. \<open>interval_world\<close> is the same world with a write interval of a minute.
\<close>

definition rollover_world :: world where
  "rollover_world =
     example_world
       \<lparr>settings := example_settings\<lparr>trackedFiles := [''a.md'', ''b.md''],
                                     lastTrackedDate := ''2024-01-01''\<rparr>,
        daily_note := Some (join [newline] [''# Heading'', ''old'']),
        daily_headings := Some [heading_at ''Heading'' 0]\<rparr>"

definition interval_world :: world where
  "interval_world =
     onload (rollover_world\<lparr>settings := (settings rollover_world)\<lparr>writeInterval := 60\<rparr>\<rparr>)"

text \<open>
  \<open>headless_world\<close> is \<open>interval_world\<close> with a daily note whose cache has no heading
  list. In \<open>deleted_world\<close> the set holds \<open>a.md\<close> and \<open>c.md\<close> and the vault no longer
  has \<open>c.md\<close>, as when the deletion of \<open>c.md\<close> is announced. In \<open>renamed_world\<close> the
  set is the same and the vault has \<open>d.md\<close> in the place of \<open>c.md\<close>, as when the
  renaming of \<open>c.md\<close> to \<open>d.md\<close> is announced.
\<close>

definition headless_world :: world where
  "headless_world = interval_world\<lparr>daily_headings := None\<rparr>"

definition deleted_world :: world where
  "deleted_world =
     (with_tracked [''a.md'', ''c.md''] example_world)
       \<lparr>vault_files := [(''a.md'', example_file ''a''), (''b.md'', example_file ''b'')]\<rparr>"

definition renamed_world :: world where
  "renamed_world =
     (with_tracked [''a.md'', ''c.md''] example_world)
       \<lparr>vault_files := [(''a.md'', example_file ''a''), (''b.md'', example_file ''b''),
                        (''d.md'', example_file ''d'')]\<rparr>"

text \<open>The template holds \<open>[[link]]\<close> and the set is \<open>a.md\<close>.\<close>

definition link_world :: world where
  "link_world =
     example_world\<lparr>settings := example_settings\<lparr>outputFormat := ''- [[link]]'',
                                                trackedFiles := [''a.md'']\<rparr>\<rparr>"

text \<open>The set holds \<open>gone.md\<close>, which is not in the vault, and \<open>c.md\<close>, which is.\<close>

definition missing_world :: world where
  "missing_world = with_tracked [''gone.md'', ''c.md''] example_world"

text \<open>
  A note named \<open>tags\<close> with the tag \<open>#x\<close>, whose link is \<open>[[tags]]\<close>, under the
  template \<open>[[link]] [[tags]]\<close>; and a note named \<open>Note\<close> under a template that holds
  \<open>[[name]]\<close> twice.
\<close>

definition tags_world :: world where
  "tags_world =
     example_world
       \<lparr>settings := example_settings\<lparr>outputFormat := ''[[link]] [[tags]]'',
                                     trackedFiles := [''tags.md'']\<rparr>,
        vault_files := [(''tags.md'', (example_file ''tags'')\<lparr>all_tags := [''#x'']\<rparr>)]\<rparr>"

definition twice_world :: world where
  "twice_world =
     example_world
       \<lparr>settings := example_settings\<lparr>outputFormat := ''[[name]] [[ctime]] [[name]]'',
                                     trackedFiles := [''Note.md'']\<rparr>,
        vault_files := [(''Note.md'', example_file ''Note'')]\<rparr>"

section \<open>Notions the statements use\<close>

text \<open>
  The daily note resolves, and either its cache has no heading list, or no heading name
  is configured, or one of its headings has the configured text: a run that is not held
  back by the write interval gets to render the list.
\<close>

definition heading_found :: "world \<Rightarrow> bool" where
  "heading_found w =
     (case daily_headings w of
        None \<Rightarrow> True
      | Some currentHeadings \<Rightarrow>
          heading (settings w) = [] \<or>
          list_ex (\<lambda>h. hc_heading h = heading (settings w)) currentHeadings)"

definition heading_ready :: "world \<Rightarrow> bool" where
  "heading_ready w = (lookup_error w = None \<and> daily_note w \<noteq> None \<and> heading_found w)"

definition resolves :: "world \<Rightarrow> string \<Rightarrow> bool" where
  "resolves w p = (getAbstractFileByPath w p \<noteq> None)"

text \<open>
  What a handler adds to the log of writes, and the handlers' writes under a write
  interval: nothing but \<open>vault.append\<close> calls, which only the branch of lines 183 to
  204 makes, and any of them only when the note's cache has no heading list at the end
  or no heading name is configured.
\<close>

definition is_append :: "vault_op \<Rightarrow> bool" where
  "is_append op = (case op of Append s \<Rightarrow> True | Modify s \<Rightarrow> False)"

definition added_ops :: "world \<Rightarrow> world \<Rightarrow> vault_op list" where
  "added_ops w w' = drop (length (vault_ops w)) (vault_ops w')"

definition heading_section_only :: "world \<Rightarrow> world \<Rightarrow> bool" where
  "heading_section_only w w' =
     (prefix (vault_ops w) (vault_ops w') \<and> list_all is_append (added_ops w w') \<and>
      (added_ops w w' = [] \<or> daily_headings w' = None \<or> heading (settings w') = []))"

text \<open>
  What the steps of a handler keep under a write interval, from the world \<open>w\<close> the
  handler starts in to the world \<open>w'\<close> it has reached: the interval and the heading name,
  \<open>heading_section_only\<close>, that a note that has been appended to is found again, and
  that a note found at the start is still found, with the same headings in the cache.
\<close>

definition gated :: "world \<Rightarrow> world \<Rightarrow> bool" where
  "gated w w' =
     (writeIntervalInMs w' = writeIntervalInMs w \<and>
      heading (settings w') = heading (settings w) \<and>
      heading_section_only w w' \<and>
      (added_ops w w' = [] \<or> lookup_error w' = None \<and> daily_note w' \<noteq> None) \<and>
      (lookup_error w = None \<and> daily_note w \<noteq> None \<longrightarrow>
         lookup_error w' = None \<and> daily_note w' \<noteq> None \<and>
         daily_headings w' = daily_headings w))"

text \<open>The number of places of a string at which a pattern occurs.\<close>

fun occurrences :: "string \<Rightarrow> string \<Rightarrow> nat" where
  "occurrences p [] = (if p = [] then 1 else 0)"
| "occurrences p (c # s) = (if prefix p (c # s) then 1 else 0) + occurrences p s"

definition placeholders :: "string list" where
  "placeholders = [''[[link]]'', ''[[name]]'', ''[[tags]]'', ''[[ctime]]'']"

text \<open>
  The leftmost place of a string at which a pattern occurs, and the string with the
  pattern at that place, and nowhere else, replaced by the expansion of a replacement
  text: what precedes the place and what follows the pattern there are kept as they are.
\<close>

definition leftmost :: "string \<Rightarrow> string \<Rightarrow> nat option" where
  "leftmost p s = find (\<lambda>i. prefix p (drop i s)) [0..<Suc (length s)]"

definition replace_leftmost :: "string \<Rightarrow> string \<Rightarrow> string \<Rightarrow> string" where
  "replace_leftmost p r s =
     (case leftmost p s of
        None \<Rightarrow> s
      | Some i \<Rightarrow>
          take i s @ getSubstitution p (take i s) (drop (i + length p) s) r
          @ drop (i + length p) s)"

section \<open>What a run of the write routine leaves alone\<close>

lemma resolveDailyNote_frame:
  "settings (fst (resolveDailyNote w)) = settings w"
  "vault_ops (fst (resolveDailyNote w)) = vault_ops w"
  "vault_files (fst (resolveDailyNote w)) = vault_files w"
  "writeIntervalInMs (fst (resolveDailyNote w)) = writeIntervalInMs w"
  "today (fst (resolveDailyNote w)) = today w"
  "daily_path (fst (resolveDailyNote w)) = daily_path w"
  by (auto simp: resolveDailyNote_def createDailyNote_def displayNotice_def getDailyNote_def Let_def
           split: option.splits prod.splits sum.splits error.splits)

lemma replace_regions_frame:
  "settings (fst (replace_regions hs c w)) = settings w \<and>
   vault_files (fst (replace_regions hs c w)) = vault_files w \<and>
   writeIntervalInMs (fst (replace_regions hs c w)) = writeIntervalInMs w \<and>
   lookup_error (fst (replace_regions hs c w)) = lookup_error w \<and>
   today (fst (replace_regions hs c w)) = today w \<and>
   daily_path (fst (replace_regions hs c w)) = daily_path w \<and>
   daily_headings (fst (replace_regions hs c w)) = daily_headings w \<and>
   pending (fst (replace_regions hs c w)) = pending w"
  by (induction hs c w rule: replace_regions.induct)
     (auto simp: vault_modify_def Let_def split: sum.splits)

lemma append_heading_section_frame:
  "settings (fst (append_heading_section w)) = settings w"
  "vault_files (fst (append_heading_section w)) = vault_files w"
  "writeIntervalInMs (fst (append_heading_section w)) = writeIntervalInMs w"
  "lookup_error (fst (append_heading_section w)) = lookup_error w"
  "today (fst (append_heading_section w)) = today w"
  "daily_path (fst (append_heading_section w)) = daily_path w"
  "daily_headings (fst (append_heading_section w)) = daily_headings w"
  by (auto simp: append_heading_section_def Let_def displayNotice_def saveSettings_def
                 vault_append_def
           split: sum.splits)

lemma write_tracked_frame:
  "settings (fst (write_tracked d w)) = settings w"
  "vault_files (fst (write_tracked d w)) = vault_files w"
  "writeIntervalInMs (fst (write_tracked d w)) = writeIntervalInMs w"
  "lookup_error (fst (write_tracked d w)) = lookup_error w"
  "today (fst (write_tracked d w)) = today w"
  "daily_path (fst (write_tracked d w)) = daily_path w"
  "daily_headings (fst (write_tracked d w)) = daily_headings w"
  by (simp_all add: write_tracked_def append_heading_section_frame replace_regions_frame
               split: option.splits)

lemma updateTrackedFiles_frame:
  "settings (fst (updateTrackedFiles d w)) = settings w"
  "vault_files (fst (updateTrackedFiles d w)) = vault_files w"
  "writeIntervalInMs (fst (updateTrackedFiles d w)) = writeIntervalInMs w"
  "today (fst (updateTrackedFiles d w)) = today w"
  "daily_path (fst (updateTrackedFiles d w)) = daily_path w"
proof -
  obtain w1 found where r: "resolveDailyNote (saveSettings w) = (w1, found)"
    by (cases "resolveDailyNote (saveSettings w)")
  have w1: "w1 = fst (resolveDailyNote (saveSettings w))"
    using r by simp
  have f: "fst (updateTrackedFiles d w) = (if found then fst (write_tracked d w1) else w1)"
    using r by (simp add: updateTrackedFiles_def)
  show "settings (fst (updateTrackedFiles d w)) = settings w"
    "vault_files (fst (updateTrackedFiles d w)) = vault_files w"
    "writeIntervalInMs (fst (updateTrackedFiles d w)) = writeIntervalInMs w"
    "today (fst (updateTrackedFiles d w)) = today w"
    "daily_path (fst (updateTrackedFiles d w)) = daily_path w"
    unfolding f by (simp_all add: write_tracked_frame w1 resolveDailyNote_frame saveSettings_def)
qed

text \<open>The log of writes only grows.\<close>

lemma vault_modify_ops: "prefix (vault_ops w) (vault_ops (vault_modify s w))"
  by (simp add: vault_modify_def)

lemma replace_regions_ops:
  "prefix (vault_ops w) (vault_ops (fst (replace_regions hs c w)))"
proof (induction hs c w rule: replace_regions.induct)
  case (1 content w)
  then show ?case by simp
next
  case (2 h hs content w)
  show ?case
  proof (cases "hc_heading h = heading (settings w)")
    case False
    with 2 show ?thesis by simp
  next
    case True
    show ?thesis
    proof (cases "format_all w (trackedFiles (settings w))")
      case (Inl e)
      with True show ?thesis by simp
    next
      case (Inr items)
      from 2(1)[OF True Inr refl refl refl]
      have "prefix
              (vault_ops
                 (vault_modify
                    (join [newline]
                       (js_splice (position_end_line h + 1)
                          ((case hs of
                              [] \<Rightarrow> int (length content)
                            | n # _ \<Rightarrow> int (position_start_line n) - 1)
                           - int (position_end_line h + 1))
                          items content))
                    w))
              (vault_ops (fst (replace_regions (h # hs) content w)))"
        using True Inr by (simp add: Let_def)
      then show ?thesis
        using vault_modify_ops prefix_order.trans by blast
    qed
  qed
qed

lemma append_heading_section_ops:
  "prefix (vault_ops w) (vault_ops (fst (append_heading_section w)))"
  by (auto simp: append_heading_section_def Let_def displayNotice_def saveSettings_def
                 vault_append_def
           split: sum.splits)

lemma write_tracked_ops:
  "prefix (vault_ops w) (vault_ops (fst (write_tracked d w)))"
  by (simp add: write_tracked_def append_heading_section_ops replace_regions_ops
           split: option.splits)

lemma updateTrackedFiles_ops:
  "prefix (vault_ops w) (vault_ops (fst (updateTrackedFiles d w)))"
proof -
  obtain w1 found where r: "resolveDailyNote (saveSettings w) = (w1, found)"
    by (cases "resolveDailyNote (saveSettings w)")
  have w1: "vault_ops w1 = vault_ops w"
    using resolveDailyNote_frame(2)[of "saveSettings w"] r by (simp add: saveSettings_def)
  show ?thesis
    using r w1 write_tracked_ops[of w1 d] by (auto simp: updateTrackedFiles_def)
qed

section \<open>The formatter and the loop\<close>

text \<open>
  A path that resolves to no file makes the formatter raise, and with it the rendering
  of the whole list; when every path resolves and the daily note is found, the list is
  rendered.
\<close>

lemma getFormattedOutput_missing:
  "getAbstractFileByPath w p = None \<Longrightarrow> \<exists>e. getFormattedOutput w p = Inl e"
  by (simp add: getFormattedOutput_def split: sum.splits)

lemma format_all_missing:
  "p \<in> set ps \<Longrightarrow> getAbstractFileByPath w p = None \<Longrightarrow> \<exists>e. format_all w ps = Inl e"
proof (induction ps)
  case Nil
  then show ?case by simp
next
  case (Cons q ps)
  show ?case
  proof (cases "getFormattedOutput w q")
    case (Inl e)
    then show ?thesis by simp
  next
    case (Inr l)
    with Cons.prems getFormattedOutput_missing[of w q] have "p \<in> set ps" by auto
    with Cons.IH Cons.prems(2) obtain e where "format_all w ps = Inl e" by blast
    with Inr show ?thesis by simp
  qed
qed

lemma format_all_error_kind:
  "lookup_error w = None \<Longrightarrow> format_all w ps = Inl e \<Longrightarrow> e = TypeError"
  by (induction ps arbitrary: e)
     (auto simp: getFormattedOutput_def getDailyNote_def split: sum.splits if_splits option.splits)

lemma getFormattedOutput_cong:
  assumes "lookup_error w' = lookup_error w" "(daily_note w' = None) = (daily_note w = None)"
    "vault_files w' = vault_files w" "outputFormat (settings w') = outputFormat (settings w)"
  shows "getFormattedOutput w' p = getFormattedOutput w p"
proof -
  have "getDailyNote w' = getDailyNote w"
    using assms(1,2) by (auto simp: getDailyNote_def split: option.splits)
  moreover have "getAbstractFileByPath w' p = getAbstractFileByPath w p"
    using assms(3) by (simp add: getAbstractFileByPath_def)
  ultimately show ?thesis
    using assms(4) by (simp add: getFormattedOutput_def split: sum.splits option.splits)
qed

lemma format_all_cong:
  assumes "lookup_error w' = lookup_error w" "(daily_note w' = None) = (daily_note w = None)"
    "vault_files w' = vault_files w" "outputFormat (settings w') = outputFormat (settings w)"
  shows "format_all w' ps = format_all w ps"
  by (induction ps) (simp_all add: getFormattedOutput_cong[OF assms] split: sum.splits)

lemma format_all_resolved:
  "lookup_error w = None \<Longrightarrow> daily_note w \<noteq> None \<Longrightarrow> list_all (resolves w) ps \<Longrightarrow>
   \<exists>items. format_all w ps = Inr items"
  by (induction ps)
     (auto simp: getFormattedOutput_def getDailyNote_def resolves_def split: option.splits)

lemma replace_regions_failed_format:
  "format_all w (trackedFiles (settings w)) = Inl e \<Longrightarrow>
   fst (replace_regions hs c w) = w \<and>
   snd (replace_regions hs c w) =
     (if list_ex (\<lambda>h. hc_heading h = heading (settings w)) hs then Some e else None)"
  by (induction hs) simp_all

lemma replace_regions_writes:
  "format_all w (trackedFiles (settings w)) = Inr items \<Longrightarrow> daily_note w \<noteq> None \<Longrightarrow>
   snd (replace_regions hs c w) = None \<and>
   (list_ex (\<lambda>h. hc_heading h = heading (settings w)) hs \<longrightarrow>
      length (vault_ops w) < length (vault_ops (fst (replace_regions hs c w))))"
proof (induction hs c w rule: replace_regions.induct)
  case (1 content w)
  then show ?case by simp
next
  case (2 h hs content w)
  show ?case
  proof (cases "hc_heading h = heading (settings w)")
    case False
    with 2 show ?thesis by simp
  next
    case True
    define c' where "c' = js_splice (position_end_line h + 1)
                          ((case hs of
                              [] \<Rightarrow> int (length content)
                            | n # _ \<Rightarrow> int (position_start_line n) - 1)
                           - int (position_end_line h + 1))
                          items content"
    define w' where "w' = vault_modify (join [newline] c') w"
    have step: "replace_regions (h # hs) content w = replace_regions hs c' w'"
      using True "2.prems"(1) by (simp add: Let_def c'_def w'_def)
    have s: "settings w' = settings w" and n: "daily_note w' \<noteq> None"
      and l: "length (vault_ops w') = Suc (length (vault_ops w))"
      using "2.prems"(2) by (auto simp: w'_def vault_modify_def)
    have f: "format_all w' (trackedFiles (settings w')) = Inr items"
      using "2.prems" format_all_cong[of w' w "trackedFiles (settings w)"]
      by (simp add: s) (simp add: w'_def vault_modify_def)
    have "snd (replace_regions hs c' w') = None"
      using "2.IH"(1)[OF True "2.prems"(1) refl refl refl, folded c'_def, folded w'_def] f n
      by simp
    moreover have "length (vault_ops w') \<le> length (vault_ops (fst (replace_regions hs c' w')))"
      using replace_regions_ops[of w' hs c'] by (simp add: prefix_length_le)
    ultimately show ?thesis using step l by simp
  qed
qed

section \<open>Runs of the write routine\<close>

lemma heading_found_cong:
  "daily_headings w' = daily_headings w \<Longrightarrow> heading (settings w') = heading (settings w) \<Longrightarrow>
   heading_found w' = heading_found w"
  by (simp add: heading_found_def split: option.splits)

lemma heading_found_saveSettings: "heading_found (saveSettings w) = heading_found w"
  by (rule heading_found_cong) (simp_all add: saveSettings_def)

lemma resolveDailyNote_found:
  "lookup_error w = None \<Longrightarrow> daily_note w \<noteq> None \<Longrightarrow> resolveDailyNote w = (w, True)"
  by (simp add: resolveDailyNote_def getDailyNote_def)

lemma updateTrackedFiles_found:
  "lookup_error w = None \<Longrightarrow> daily_note w \<noteq> None \<Longrightarrow>
   updateTrackedFiles d w = write_tracked d (saveSettings w)"
  by (simp add: updateTrackedFiles_def resolveDailyNote_found saveSettings_def)

lemma append_heading_section_failed_format:
  assumes "p \<in> set (trackedFiles (settings w))" "getAbstractFileByPath w p = None"
  shows "vault_ops (fst (append_heading_section w)) = vault_ops w"
    and "daily_note (fst (append_heading_section w)) = daily_note w"
    and "lookup_error w = None \<longrightarrow> snd (append_heading_section w) = Some TypeError"
proof -
  let ?w1 = "displayNotice ''Cannot find the designated heading in your file. Creating a default one for now...'' w"
  have "getAbstractFileByPath ?w1 p = None" "p \<in> set (trackedFiles (settings ?w1))"
    using assms by (simp_all add: displayNotice_def getAbstractFileByPath_def)
  then obtain e where e: "format_all ?w1 (trackedFiles (settings ?w1)) = Inl e"
    using format_all_missing by blast
  have "lookup_error w = None \<longrightarrow> e = TypeError"
    using format_all_error_kind[OF _ e] by (simp add: displayNotice_def)
  with e show "vault_ops (fst (append_heading_section w)) = vault_ops w"
    and "daily_note (fst (append_heading_section w)) = daily_note w"
    and "lookup_error w = None \<longrightarrow> snd (append_heading_section w) = Some TypeError"
    by (simp_all add: append_heading_section_def Let_def) (simp_all add: displayNotice_def)
qed

lemma write_tracked_failed_format:
  assumes "p \<in> set (trackedFiles (settings w))" "getAbstractFileByPath w p = None"
  shows "vault_ops (fst (write_tracked d w)) = vault_ops w"
    and "daily_note (fst (write_tracked d w)) = daily_note w"
proof -
  obtain e where e: "format_all w (trackedFiles (settings w)) = Inl e"
    using assms format_all_missing by blast
  show "vault_ops (fst (write_tracked d w)) = vault_ops w"
    and "daily_note (fst (write_tracked d w)) = daily_note w"
    using append_heading_section_failed_format[OF assms] replace_regions_failed_format[OF e]
    by (simp_all add: write_tracked_def split: option.splits)
qed

lemma write_tracked_raises:
  assumes "p \<in> set (trackedFiles (settings w))" "getAbstractFileByPath w p = None"
    and "daily_note w \<noteq> None"
    and "heading_found w"
    and "writeIntervalInMs w = 0 \<or> d"
    and "lookup_error w = None"
  shows "snd (write_tracked d w) = Some TypeError"
proof -
  obtain e where e: "format_all w (trackedFiles (settings w)) = Inl e"
    using assms format_all_missing by blast
  have "e = TypeError"
    using format_all_error_kind[OF assms(6) e] .
  with e have "format_all w (trackedFiles (settings w)) = Inl TypeError"
    by simp
  then show ?thesis
    using append_heading_section_failed_format(3)[OF assms(1,2)]
      replace_regions_failed_format[of w TypeError] assms(3-)
    by (auto simp: write_tracked_def heading_found_def split: option.splits)
qed

lemma updateTrackedFiles_missing_ops:
  assumes "p \<in> set (trackedFiles (settings w))" "getAbstractFileByPath w p = None"
  shows "vault_ops (fst (updateTrackedFiles d w)) = vault_ops w"
proof -
  obtain w1 found where r: "resolveDailyNote (saveSettings w) = (w1, found)"
    by (cases "resolveDailyNote (saveSettings w)")
  have w1: "settings w1 = settings w" "vault_files w1 = vault_files w" "vault_ops w1 = vault_ops w"
    using resolveDailyNote_frame(1,2,3)[of "saveSettings w"] r by (simp_all add: saveSettings_def)
  have "p \<in> set (trackedFiles (settings w1))" "getAbstractFileByPath w1 p = None"
    using assms w1 by (simp_all add: getAbstractFileByPath_def)
  then have "vault_ops (fst (write_tracked d w1)) = vault_ops w1"
    by (rule write_tracked_failed_format)
  then show ?thesis
    using r w1 by (simp add: updateTrackedFiles_def)
qed

lemma updateTrackedFiles_missing_raises:
  assumes "p \<in> set (trackedFiles (settings w))" "getAbstractFileByPath w p = None"
    and "heading_ready w" and "writeIntervalInMs w = 0 \<or> d"
  shows "snd (updateTrackedFiles d w) = Some TypeError"
    and "daily_note (fst (updateTrackedFiles d w)) = daily_note w"
proof -
  let ?w1 = "saveSettings w"
  have u: "updateTrackedFiles d w = write_tracked d ?w1"
    using assms(3) by (simp add: heading_ready_def updateTrackedFiles_found)
  have m: "p \<in> set (trackedFiles (settings ?w1))" "getAbstractFileByPath ?w1 p = None"
    using assms(1,2) by (simp_all add: saveSettings_def getAbstractFileByPath_def)
  have "snd (write_tracked d ?w1) = Some TypeError"
    by (rule write_tracked_raises[OF m])
       (use assms(3,4) in \<open>simp_all add: heading_ready_def heading_found_saveSettings\<close>,
        simp_all add: saveSettings_def)
  then show "snd (updateTrackedFiles d w) = Some TypeError"
    using u by simp
  show "daily_note (fst (updateTrackedFiles d w)) = daily_note w"
    using write_tracked_failed_format(2)[OF m] u by (simp add: saveSettings_def)
qed


lemma resolves_vault_files: "vault_files w' = vault_files w \<Longrightarrow> resolves w' = resolves w"
  by (rule ext) (simp add: resolves_def getAbstractFileByPath_def)

lemma append_heading_section_writes:
  assumes "lookup_error w = None" "daily_note w \<noteq> None"
    "list_all (resolves w) (trackedFiles (settings w))"
  shows "snd (append_heading_section w) = None"
    and "length (vault_ops w) < length (vault_ops (fst (append_heading_section w)))"
proof -
  let ?w1 = "displayNotice ''Cannot find the designated heading in your file. Creating a default one for now...'' w"
  have "lookup_error ?w1 = None" "daily_note ?w1 \<noteq> None"
    "list_all (resolves ?w1) (trackedFiles (settings ?w1))"
    using assms resolves_vault_files[of ?w1 w] by (simp_all add: displayNotice_def)
  then obtain items where "format_all ?w1 (trackedFiles (settings ?w1)) = Inr items"
    using format_all_resolved by blast
  then show "snd (append_heading_section w) = None"
    and "length (vault_ops w) < length (vault_ops (fst (append_heading_section w)))"
    by (simp_all add: append_heading_section_def Let_def)
       (simp_all add: displayNotice_def saveSettings_def vault_append_def)
qed

lemma write_tracked_writes:
  assumes "lookup_error w = None" "daily_note w \<noteq> None"
    "list_all (resolves w) (trackedFiles (settings w))"
    and "heading_found w"
    and "writeIntervalInMs w = 0 \<or> d \<or> daily_headings w = None \<or> heading (settings w) = []"
  shows "snd (write_tracked d w) = None"
    and "length (vault_ops w) < length (vault_ops (fst (write_tracked d w)))"
proof -
  obtain items where i: "format_all w (trackedFiles (settings w)) = Inr items"
    using format_all_resolved[OF assms(1,2,3)] by blast
  show "snd (write_tracked d w) = None"
    and "length (vault_ops w) < length (vault_ops (fst (write_tracked d w)))"
    using append_heading_section_writes[OF assms(1,2,3)]
      replace_regions_writes[OF i assms(2)] assms(2,4,5)
    by (auto simp: write_tracked_def heading_found_def split: option.splits)
qed

lemma updateTrackedFiles_writes:
  assumes "heading_ready w" "list_all (resolves w) (trackedFiles (settings w))"
    and "writeIntervalInMs w = 0 \<or> d \<or> daily_headings w = None \<or> heading (settings w) = []"
  shows "snd (updateTrackedFiles d w) = None"
    and "length (vault_ops w) < length (vault_ops (fst (updateTrackedFiles d w)))"
proof -
  let ?w1 = "saveSettings w"
  have u: "updateTrackedFiles d w = write_tracked d ?w1"
    using assms(1) by (simp add: heading_ready_def updateTrackedFiles_found)
  have "snd (write_tracked d ?w1) = None \<and>
        length (vault_ops ?w1) < length (vault_ops (fst (write_tracked d ?w1)))"
    using write_tracked_writes[of ?w1 d] assms resolves_vault_files[of ?w1 w]
    by (simp add: heading_ready_def heading_found_saveSettings) (simp add: saveSettings_def)
  then show "snd (updateTrackedFiles d w) = None"
    and "length (vault_ops w) < length (vault_ops (fst (updateTrackedFiles d w)))"
    using u by (simp_all add: saveSettings_def)
qed

lemma updateTrackedFiles_held_back:
  assumes "writeIntervalInMs w \<noteq> 0" "lookup_error w = None" "daily_note w \<noteq> None"
    "daily_headings w \<noteq> None" "heading (settings w) \<noteq> []"
  shows "updateTrackedFiles False w = (saveSettings w, None)"
  using assms
  by (auto simp: updateTrackedFiles_found write_tracked_def saveSettings_def)

lemma onCacheChange_rolled:
  assumes "lastTrackedDate (settings w) \<noteq> today w"
    and "updateTrackedFiles False w = (w1, None)"
  shows "fst (onCacheChange ev w)
           = w1\<lparr>settings := (settings w1)\<lparr>trackedFiles := [], lastTrackedDate := today w\<rparr>\<rparr>
         \<or> fst (onCacheChange ev w)
           = fst (updateTrackedFiles False
                    (w1\<lparr>settings := (settings w1)\<lparr>trackedFiles := [], lastTrackedDate := today w\<rparr>\<rparr>))"
  using assms
  by (auto simp: onCacheChange_def Let_def store_tracked_def split: sum.splits)

lemma append_heading_section_shape:
  "vault_ops (fst (append_heading_section w)) = vault_ops w \<or>
   (\<exists>s. vault_ops (fst (append_heading_section w)) = vault_ops w @ [Append s])"
  by (auto simp: append_heading_section_def Let_def displayNotice_def saveSettings_def
                 vault_append_def
           split: sum.splits)

lemma updateTrackedFiles_interval:
  assumes "writeIntervalInMs w \<noteq> 0"
  shows "vault_ops (fst (updateTrackedFiles False w)) = vault_ops w \<or>
         (\<exists>s. vault_ops (fst (updateTrackedFiles False w)) = vault_ops w @ [Append s]) \<and>
         (daily_headings (fst (updateTrackedFiles False w)) = None \<or> heading (settings w) = [])"
proof -
  obtain w1 found where r: "resolveDailyNote (saveSettings w) = (w1, found)"
    by (cases "resolveDailyNote (saveSettings w)")
  have w1: "settings w1 = settings w" "vault_ops w1 = vault_ops w"
    "writeIntervalInMs w1 = writeIntervalInMs w"
    using resolveDailyNote_frame(1,2,4)[of "saveSettings w"] r by (simp_all add: saveSettings_def)
  show ?thesis
  proof (cases "found \<and> daily_note w1 \<noteq> None \<and>
                (daily_headings w1 = None \<or> heading (settings w1) = [])")
    case True
    then have "updateTrackedFiles False w = append_heading_section w1"
      using r by (auto simp: updateTrackedFiles_def write_tracked_def split: option.splits)
    then show ?thesis
      using append_heading_section_shape[of w1] append_heading_section_frame(7)[of w1] True w1
      by auto
  next
    case False
    then have "fst (updateTrackedFiles False w) = w1"
      using r assms w1 by (auto simp: updateTrackedFiles_def write_tracked_def split: option.splits)
    then show ?thesis
      using w1 by simp
  qed
qed

lemma pathIsExcluded_resolved:
  "resolves w p \<Longrightarrow> \<exists>b. pathIsExcluded w p = Inr b"
  by (auto simp: pathIsExcluded_def resolves_def)

lemma add_condition_resolved:
  "resolves w (ev_path ev) \<Longrightarrow> \<exists>b. add_condition w tracked ev = Inr b"
  using pathIsExcluded_resolved[of w "ev_path ev"] by (auto simp: add_condition_def)

lemma remove_condition_resolved:
  "resolves w (ev_path ev) \<Longrightarrow> \<exists>b. remove_condition w tracked ev = Inr b"
  using pathIsExcluded_resolved[of w "ev_path ev"] by (auto simp: remove_condition_def)

lemma heading_ready_cong:
  "lookup_error w' = lookup_error w \<Longrightarrow> (daily_note w' = None) = (daily_note w = None) \<Longrightarrow>
   daily_headings w' = daily_headings w \<Longrightarrow> heading (settings w') = heading (settings w) \<Longrightarrow>
   heading_ready w' = heading_ready w"
  using heading_found_cong[of w' w] by (simp add: heading_ready_def)

lemma onCacheChange_writes:
  assumes "writeIntervalInMs w = 0" "heading_ready w"
    and "list_all (resolves w) (ev_path ev # trackedFiles (settings w))"
    and "ev_path ev \<noteq> daily_path w"
  shows "length (vault_ops w) < length (vault_ops (fst (onCacheChange ev w)))"
proof (cases "lastTrackedDate (settings w) = today w")
  case False
  have u: "snd (updateTrackedFiles False w) = None"
    "length (vault_ops w) < length (vault_ops (fst (updateTrackedFiles False w)))"
    using updateTrackedFiles_writes[of w False] assms by simp_all
  define w1 where "w1 = fst (updateTrackedFiles False w)"
  have "updateTrackedFiles False w = (w1, None)"
    using u(1) by (simp add: w1_def prod_eq_iff)
  from onCacheChange_rolled[OF False this, of ev]
  have "prefix (vault_ops w1) (vault_ops (fst (onCacheChange ev w)))"
    using updateTrackedFiles_ops[of "w1\<lparr>settings := (settings w1)\<lparr>trackedFiles := [], lastTrackedDate := today w\<rparr>\<rparr>" False]
    by auto
  then show ?thesis
    using u(2) prefix_length_le by (fastforce simp: w1_def)
next
  case True
  have g: "getDailyNote w = Inr True"
    using assms(2) by (simp add: heading_ready_def getDailyNote_def)
  obtain a where a: "add_condition w (trackedFiles (settings w)) ev = Inr a"
    using add_condition_resolved[of w ev] assms(3) by auto
  define pushed where
    "pushed = (if a then trackedFiles (settings w) @ [ev_path ev] else trackedFiles (settings w))"
  define w3 where "w3 = store_tracked False pushed w"
  have r3: "resolves w3 = resolves w"
    by (rule resolves_vault_files) (simp add: w3_def store_tracked_def)
  obtain r where r: "remove_condition w3 pushed ev = Inr r"
    using remove_condition_resolved[of w3 ev] assms(3) r3 by auto
  define final where "final = (if r then removeAll (ev_path ev) pushed else pushed)"
  define w4 where "w4 = store_tracked False final w3"
  have oc: "onCacheChange ev w = updateTrackedFiles False w4"
    using True g a r assms(4)
    by (simp add: onCacheChange_def Let_def pushed_def[symmetric] w3_def[symmetric]
                  final_def[symmetric] w4_def[symmetric])
  have r4: "resolves w4 = resolves w"
    by (rule resolves_vault_files) (simp add: w4_def w3_def store_tracked_def)
  have "set final \<subseteq> set (ev_path ev # trackedFiles (settings w))"
    by (auto simp: final_def pushed_def)
  then have "list_all (resolves w4) final"
    using assms(3) r4 by (auto simp: list_all_iff)
  moreover have "trackedFiles (settings w4) = final" "writeIntervalInMs w4 = 0"
    "vault_ops w4 = vault_ops w"
    using assms(1) by (simp_all add: w4_def w3_def store_tracked_def)
  moreover have "heading_ready w4"
    using assms(2) heading_ready_cong[of w4 w] by (simp add: w4_def w3_def store_tracked_def)
  ultimately show ?thesis
    using updateTrackedFiles_writes(2)[of w4 False] oc by simp
qed

lemma onVaultDelete_writes:
  assumes "writeIntervalInMs w = 0" "heading_ready w"
    and "list_all (resolves w) (removeAll p (trackedFiles (settings w)))"
    and "p \<in> set (trackedFiles (settings w))"
  shows "length (vault_ops w) < length (vault_ops (fst (onVaultDelete (File p) w)))"
proof -
  let ?w1 = "w\<lparr>settings := (settings w)\<lparr>trackedFiles := removeAll p (trackedFiles (settings w))\<rparr>\<rparr>"
  have "resolves ?w1 = resolves w"
    by (rule resolves_vault_files) simp
  then have "list_all (resolves ?w1) (trackedFiles (settings ?w1))"
    using assms(3) by (auto simp: list_all_iff)
  moreover have "heading_ready ?w1"
    using assms(2) heading_ready_cong[of ?w1 w] by simp
  ultimately show ?thesis
    using updateTrackedFiles_writes(2)[of ?w1 False] assms(1,4) by (simp add: onVaultDelete_def)
qed

lemma onVaultRename_writes:
  assumes "writeIntervalInMs w = 0" "heading_ready w"
    and "list_all (resolves w) (p # removeAll old (trackedFiles (settings w)))"
    and "old \<in> set (trackedFiles (settings w))"
    and "\<not> str_includes (outputFormat (settings w)) ''[[link]]''"
  shows "length (vault_ops w) < length (vault_ops (fst (onVaultRename (File p) old w)))"
proof -
  let ?w1 = "saveSettings (w\<lparr>settings := (settings w)\<lparr>trackedFiles := removeAll old (trackedFiles (settings w)) @ [p]\<rparr>\<rparr>)"
  have "resolves ?w1 = resolves w"
    by (rule resolves_vault_files) (simp add: saveSettings_def)
  then have "list_all (resolves ?w1) (trackedFiles (settings ?w1))"
    using assms(3) by (auto simp: list_all_iff saveSettings_def)
  moreover have "heading_ready ?w1"
    using assms(2) heading_ready_cong[of ?w1 w] by (simp add: saveSettings_def)
  moreover have "writeIntervalInMs ?w1 = 0" "vault_ops ?w1 = vault_ops w"
    "outputFormat (settings ?w1) = outputFormat (settings w)"
    using assms(1) by (simp_all add: saveSettings_def)
  ultimately show ?thesis
    using updateTrackedFiles_writes(2)[of ?w1 False] assms(4,5)
    by (simp add: onVaultRename_def Let_def)
qed

lemma onVaultRename_link:
  assumes "str_includes (outputFormat (settings w)) ''[[link]]''"
  shows "vault_ops (fst (onVaultRename f old w)) = vault_ops w"
  using assms by (cases f) (simp_all add: onVaultRename_def Let_def saveSettings_def)

lemma update_without_note:
  assumes "daily_note w = None" "lookup_error w = None"
    "\<not> automaticallyCreateDailyNote (settings w)"
  shows "updateTrackedFiles d w = ((saveSettings w)\<lparr>pending := pending w @ [False]\<rparr>, Some TypeError)"
  using assms
  by (simp add: updateTrackedFiles_def resolveDailyNote_def getDailyNote_def saveSettings_def Let_def)

lemma drain_without_note:
  "daily_note w = None \<Longrightarrow> lookup_error w = None \<Longrightarrow>
   \<not> automaticallyCreateDailyNote (settings w) \<Longrightarrow> pending w \<noteq> [] \<Longrightarrow> drain n w = None"
proof (induction n arbitrary: w)
  case 0
  then show ?case by (cases "pending w") simp_all
next
  case (Suc n)
  then obtain d rest where p: "pending w = d # rest" by (cases "pending w") auto
  let ?w = "w\<lparr>pending := rest\<rparr>"
  have u: "updateTrackedFiles d ?w = ((saveSettings ?w)\<lparr>pending := rest @ [False]\<rparr>, Some TypeError)"
    using update_without_note[of ?w d] Suc.prems by simp
  have "drain n (fst (updateTrackedFiles d ?w)) = None"
    by (rule Suc.IH) (use Suc.prems u in \<open>simp_all add: saveSettings_def\<close>)
  then show ?case using p by simp
qed

section \<open>Occurrences of a placeholder\<close>

text \<open>
  A \<open>replace\<close> call changes its subject at one place at most, the leftmost
  occurrence of its pattern. No placeholder overlaps another or itself, so the call
  for one placeholder leaves every occurrence of the others in place.
\<close>

lemma replace_from_here:
  "replace_from pat rep pre (pat @ b) = pre @ getSubstitution pat pre b rep @ b"
proof (cases "pat @ b")
  case Nil
  then show ?thesis by simp
next
  case (Cons c s)
  have p: "prefix pat (c # s)"
    using Cons by (metis prefixI)
  have d: "drop (length pat) (c # s) = b"
    using Cons by (metis append_eq_conv_conj)
  show ?thesis
    unfolding Cons using p d by simp
qed

lemma js_replace_first_occurrence:
  assumes "\<forall>i < length a. \<not> prefix pat (drop i (a @ pat @ b))"
  shows "js_replace pat rep (a @ pat @ b) = a @ getSubstitution pat a b rep @ b"
proof -
  have "replace_from pat rep pre (a @ pat @ b) = pre @ a @ getSubstitution pat (pre @ a) b rep @ b"
    if "\<forall>i < length a. \<not> prefix pat (drop i (a @ pat @ b))" for pre
    using that
  proof (induction a arbitrary: pre)
    case Nil
    show ?case by (simp add: replace_from_here)
  next
    case (Cons c a)
    have "\<not> prefix pat ((c # a) @ pat @ b)"
      using Cons.prems by (metis drop0 length_greater_0_conv list.distinct(1))
    moreover have "\<forall>i < length a. \<not> prefix pat (drop i (a @ pat @ b))"
      using Cons.prems by (metis Suc_less_eq drop_Suc_Cons length_Cons append_Cons)
    ultimately show ?case
      using Cons.IH[of "pre @ [c]"] by simp
  qed
  from this[OF assms, of "[]"] show ?thesis
    by (simp add: js_replace_def)
qed

text \<open>
  \<open>leftmost\<close> gives the least index at which the pattern begins, and a \<open>replace\<close>
  call is \<open>replace_leftmost\<close>.
\<close>

lemma leftmost_None: "leftmost p s = None \<longleftrightarrow> (\<forall>j \<le> length s. \<not> prefix p (drop j s))"
  by (auto simp: leftmost_def find_None_iff less_Suc_eq_le simp del: upt_Suc)

lemma leftmost_Some:
  "leftmost p s = Some i \<longleftrightarrow>
     i \<le> length s \<and> prefix p (drop i s) \<and> (\<forall>j < i. \<not> prefix p (drop j s))"
proof -
  have "find P [0..<n] = Some i \<longleftrightarrow> i < n \<and> P i \<and> (\<forall>j < i. \<not> P j)" for P n
  proof
    assume "find P [0..<n] = Some i"
    then obtain k where k: "k < length [0..<n]" "P ([0..<n] ! k)" "i = [0..<n] ! k"
      "\<forall>j < k. \<not> P ([0..<n] ! j)"
      unfolding find_Some_iff by blast
    then have "i = k" "k < n" by simp_all
    with k show "i < n \<and> P i \<and> (\<forall>j < i. \<not> P j)" by auto
  next
    assume a: "i < n \<and> P i \<and> (\<forall>j < i. \<not> P j)"
    show "find P [0..<n] = Some i"
      unfolding find_Some_iff
      by (rule exI[of _ i]) (use a in auto)
  qed
  then show ?thesis
    by (simp add: leftmost_def less_Suc_eq_le del: upt_Suc)
qed

lemma replace_from_absent:
  "\<forall>j \<le> length s. \<not> prefix pat (drop j s) \<Longrightarrow> replace_from pat rep pre s = pre @ s"
proof (induction s arbitrary: pre)
  case Nil
  have "\<not> prefix pat []"
    using Nil.prems[rule_format, of 0] by simp
  then show ?case by simp
next
  case (Cons c s)
  have "\<not> prefix pat (c # s)"
    using Cons.prems by (metis drop0 le0)
  moreover have "\<forall>j \<le> length s. \<not> prefix pat (drop j s)"
  proof (intro allI impI)
    fix j assume "j \<le> length s"
    then have "\<not> prefix pat (drop (Suc j) (c # s))"
      using Cons.prems by (metis Suc_le_mono length_Cons)
    then show "\<not> prefix pat (drop j s)" by simp
  qed
  ultimately show ?case
    using Cons.IH[of "pre @ [c]"] by simp
qed

lemma js_replace_leftmost: "js_replace p r s = replace_leftmost p r s"
proof (cases "leftmost p s")
  case None
  then have "\<forall>j \<le> length s. \<not> prefix p (drop j s)"
    by (simp add: leftmost_None)
  then have "replace_from p r [] s = s"
    using replace_from_absent[of s p r "[]"] by simp
  then show ?thesis
    using None by (simp add: js_replace_def replace_leftmost_def)
next
  case (Some i)
  then have i: "i \<le> length s" "prefix p (drop i s)" "\<forall>j < i. \<not> prefix p (drop j s)"
    by (simp_all add: leftmost_Some)
  define a where "a = take i s"
  define b where "b = drop (i + length p) s"
  have "drop i s = p @ drop (length p) (drop i s)"
    using i(2) by (metis append_eq_conv_conj prefixE)
  then have s: "s = a @ p @ b"
    by (metis a_def b_def append_take_drop_id drop_drop add.commute)
  have la: "length a = i"
    using i(1) by (simp add: a_def)
  have "\<forall>j < length a. \<not> prefix p (drop j (a @ p @ b))"
    using i(3) unfolding la s[symmetric] .
  then have "js_replace p r (a @ p @ b) = a @ getSubstitution p a b r @ b"
    by (rule js_replace_first_occurrence)
  then have "js_replace p r s = a @ getSubstitution p a b r @ b"
    by (simp only: s[symmetric])
  then show ?thesis
    using Some by (simp add: replace_leftmost_def a_def b_def)
qed

lemma replace_from_shape:
  "replace_from pat rep pre s = pre @ s \<or>
   (\<exists>a b x. s = a @ pat @ b \<and> replace_from pat rep pre s = pre @ a @ x @ b)"
proof (induction s arbitrary: pre)
  case Nil
  then show ?case by auto
next
  case (Cons c s)
  show ?case
  proof (cases "prefix pat (c # s)")
    case True
    then obtain b where b: "c # s = pat @ b"
      by (auto simp: prefix_def)
    then have "drop (length pat) (c # s) = b"
      by simp
    then have "replace_from pat rep pre (c # s) = pre @ [] @ getSubstitution pat pre b rep @ b"
      using True by simp
    with b show ?thesis
      by (metis append_Nil)
  next
    case False
    then have eq: "replace_from pat rep pre (c # s) = replace_from pat rep (pre @ [c]) s"
      by simp
    from Cons.IH[of "pre @ [c]"] show ?thesis
    proof
      assume "replace_from pat rep (pre @ [c]) s = (pre @ [c]) @ s"
      then show ?thesis using eq by simp
    next
      assume "\<exists>a b x. s = a @ pat @ b \<and>
                replace_from pat rep (pre @ [c]) s = (pre @ [c]) @ a @ x @ b"
      then obtain a b x where "s = a @ pat @ b"
        "replace_from pat rep (pre @ [c]) s = (pre @ [c]) @ a @ x @ b"
        by blast
      then have "c # s = (c # a) @ pat @ b \<and>
                 replace_from pat rep pre (c # s) = pre @ (c # a) @ x @ b"
        using eq by simp
      then show ?thesis by blast
    qed
  qed
qed

lemma js_replace_shape:
  "js_replace pat rep s = s \<or> (\<exists>a b x. s = a @ pat @ b \<and> js_replace pat rep s = a @ x @ b)"
  using replace_from_shape[of pat rep "[]" s] by (simp add: js_replace_def)

lemma occurrences_suffix: "occurrences p b \<le> occurrences p (a @ b)"
  by (induction a) simp_all

lemma placeholder_no_straddle:
  assumes "p \<in> set placeholders" "q \<in> set placeholders" "a \<noteq> []" "prefix p (a @ q @ b)"
  shows "prefix p a"
proof -
  from assms(4) have "prefix p a \<or> (\<exists>us. p = a @ us \<and> prefix us (q @ b))"
    by (simp add: prefix_append)
  then show ?thesis
  proof
    assume "\<exists>us. p = a @ us \<and> prefix us (q @ b)"
    then obtain us where "p = a @ us" "prefix us (q @ b)"
      by blast
    then show ?thesis
      using assms(1,2,3) by (auto simp: placeholders_def Cons_eq_append_conv append_eq_Cons_conv)
  qed
qed

lemma occurrences_at_placeholder:
  assumes "p \<in> set placeholders" "q \<in> set placeholders"
  shows "occurrences p (q @ b) = (if p = q then 1 else 0) + occurrences p b"
  using assms by (auto simp: placeholders_def)

lemma occurrences_replace:
  assumes "p \<in> set placeholders" "q \<in> set placeholders"
  shows "occurrences p (a @ q @ b) \<le> (if p = q then 1 else 0) + occurrences p (a @ x @ b)"
proof (induction a)
  case Nil
  show ?case
    using occurrences_at_placeholder[OF assms, of b] occurrences_suffix[of p b x] by simp
next
  case (Cons c a)
  have "prefix p (c # a @ q @ b) \<longrightarrow> prefix p (c # a @ x @ b)"
    using placeholder_no_straddle[OF assms, of "c # a" b] prefix_prefix[of p "c # a" "x @ b"]
    by auto
  with Cons show ?case by auto
qed

lemma occurrences_js_replace:
  assumes "p \<in> set placeholders" "q \<in> set placeholders"
  shows "occurrences p s \<le> (if p = q then 1 else 0) + occurrences p (js_replace q rep s)"
  using js_replace_shape[of q rep s] occurrences_replace[OF assms] by auto

section \<open>Replacing the region under the heading\<close>

text \<open>
  What the loop does when one heading has the configured text and another heading
  follows it, with at least one line between them: the lines from the one after the
  heading up to, but not including, the last line before the next heading give way to
  the rendered list. The last line before the next heading stays.
\<close>

lemma replace_regions_no_match:
  "\<not> list_ex (\<lambda>h. hc_heading h = heading (settings w)) hs \<Longrightarrow>
   replace_regions hs content w = (w, None)"
proof (induction hs)
  case Nil
  show ?case by simp
next
  case (Cons a hs)
  then have "hc_heading a \<noteq> heading (settings w)"
    and "replace_regions hs content w = (w, None)"
    by simp_all
  then show ?case
    by (simp only: replace_regions.simps(2) if_False)
qed

lemma js_splice_range:
  assumes "s \<le> e" "e \<le> length xs"
  shows "js_splice s (int e - int s) items xs = take s xs @ items @ drop e xs"
proof -
  have "nat (max (int e - int s) 0) = e - s"
    using assms(1) by simp
  moreover have "min s (length xs) = s" "min (e - s) (length xs - s) = e - s" "s + (e - s) = e"
    using assms by simp_all
  ultimately show ?thesis
    by (simp add: js_splice_def Let_def)
qed

lemma region_before_next_heading:
  assumes "hc_heading h = heading (settings w)"
    and "\<not> list_ex (\<lambda>h. hc_heading h = heading (settings w)) (n # rest)"
    and "format_all w (trackedFiles (settings w)) = Inr items"
    and "position_end_line h + 1 \<le> position_start_line n - 1"
    and "position_start_line n - 1 \<le> length content"
  shows "replace_regions (h # n # rest) content w =
           (vault_modify
              (join [newline]
                 (take (position_end_line h + 1) content @ items
                  @ drop (position_start_line n - 1) content))
              w,
            None)"
proof -
  define c' where "c' = js_splice (position_end_line h + 1)
                          (int (position_start_line n) - 1 - int (position_end_line h + 1))
                          items content"
  have e: "int (position_start_line n) - 1 - int (position_end_line h + 1)
             = int (position_start_line n - 1) - int (position_end_line h + 1)"
    using assms(4) by simp
  have c: "c' = take (position_end_line h + 1) content @ items
                @ drop (position_start_line n - 1) content"
    unfolding c'_def e by (rule js_splice_range[OF assms(4,5)])
  have "replace_regions (h # n # rest) content w
          = replace_regions (n # rest) c' (vault_modify (join [newline] c') w)"
    unfolding c'_def
    by (subst replace_regions.simps(2))
       (simp only: assms(1,3) refl if_True sum.case Let_def list.case)
  moreover have "replace_regions (n # rest) c' (vault_modify (join [newline] c') w)
                   = (vault_modify (join [newline] c') w, None)"
    by (rule replace_regions_no_match) (use assms(2) in \<open>simp add: vault_modify_def\<close>)
  ultimately show ?thesis
    by (simp only: c)
qed

text \<open>
  C1. The note has the lines \<open># Heading\<close>, \<open>old1\<close>, \<open>old2\<close>, \<open># Next\<close>, \<open>x\<close>, the
  heading name is \<open>Heading\<close> and the tracked set is \<open>c.md\<close>, rendered as \<open>- c\<close>. A run
  of the write routine with writing enabled starts at line 1 and ends at line 2, the
  line before the next heading, and hands \<open>splice\<close> the difference of the two as the
  number of lines to delete: one line goes, \<open>old2\<close> stays. The note then has the lines
  \<open># Heading\<close>, \<open>- c\<close>, \<open>old2\<close>, \<open># Next\<close>, \<open>x\<close>.
\<close>

theorem region_replacement_keeps_last_line:
  "updateTrackedFiles True example_world =
     (example_world
        \<lparr>daily_note := Some (join [newline] [''# Heading'', ''- c'', ''old2'', ''# Next'', ''x'']),
         saved := [example_settings],
         vault_ops := [Modify (join [newline] [''# Heading'', ''- c'', ''old2'', ''# Next'', ''x''])]\<rparr>,
      None)"
  by code_simp

text \<open>
  C6. Two runs in a row, writing enabled, on a note whose heading \<open>Heading\<close> on line 0
  is followed at once by the heading \<open>Next\<close> on line 1. The first run deletes nothing
  (the count is \<open>-1\<close>) and inserts \<open>- c\<close>. For the second run the cache shows \<open>Next\<close> on
  line 2; the count is 0, so \<open>- c\<close> is inserted once more and the note differs from the
  one the first run left.
\<close>

theorem second_write_duplicates_entry:
  "daily_note
     (fst (updateTrackedFiles True
             (with_note [''# Heading'', ''# Next'']
                [heading_at ''Heading'' 0, heading_at ''Next'' 1] example_world)))
   = Some (join [newline] [''# Heading'', ''- c'', ''# Next''])
   \<and> daily_note
       (fst (updateTrackedFiles True
               ((fst (updateTrackedFiles True
                        (with_note [''# Heading'', ''# Next'']
                           [heading_at ''Heading'' 0, heading_at ''Next'' 1] example_world)))
                  \<lparr>daily_headings := Some [heading_at ''Heading'' 0, heading_at ''Next'' 2]\<rparr>)))
     = Some (join [newline] [''# Heading'', ''- c'', ''- c'', ''# Next''])"
  by code_simp

text \<open>
  C9. The note has two headings with the configured text, on lines 0 and 2. The loop
  does not stop at the first: it rewrites the region of the second too, at the line the
  cache gave before the first insertion moved it. The second heading line and the line
  \<open>b\<close> are deleted: the note ends as \<open># Heading\<close>, \<open>- c\<close>, \<open>a\<close>, \<open>- c\<close>.
\<close>

theorem later_heading_region_rewritten:
  "daily_note
     (fst (updateTrackedFiles True
             (with_note [''# Heading'', ''a'', ''# Heading'', ''b'']
                [heading_at ''Heading'' 0, heading_at ''Heading'' 2] example_world)))
   = Some (join [newline] [''# Heading'', ''- c'', ''a'', ''- c''])"
  by code_simp

section \<open>The tracked set\<close>

text \<open>
  What the handlers keep: a set without duplicates stays so under a cache-change event
  and under a deletion, and under a renaming whose new path the set does not hold.
\<close>

lemma add_condition_fresh:
  "add_condition w tracked ev = Inr True \<Longrightarrow> ev_path ev \<notin> set tracked"
  by (auto simp: add_condition_def split: if_splits sum.splits)

lemma onCacheChange_same_day:
  assumes "lastTrackedDate (settings w) = today w"
  shows "(\<exists>tracked'. trackedFiles (settings (fst (onCacheChange ev w))) = tracked' \<and>
           (tracked' = trackedFiles (settings w) \<or>
            ev_path ev \<notin> set (trackedFiles (settings w)) \<and>
            tracked' = trackedFiles (settings w) @ [ev_path ev] \<or>
            tracked' = removeAll (ev_path ev) (trackedFiles (settings w)) \<or>
            tracked' = removeAll (ev_path ev) (trackedFiles (settings w) @ [ev_path ev])))"
proof (cases "getDailyNote w")
  case (Inl e)
  then show ?thesis
    using assms by (simp add: onCacheChange_def Let_def)
next
  case (Inr found)
  show ?thesis
  proof (cases "found \<and> ev_path ev = daily_path w")
    case True
    then show ?thesis
      using assms Inr by (simp add: onCacheChange_def Let_def)
  next
    case False
    show ?thesis
    proof (cases "add_condition w (trackedFiles (settings w)) ev")
      case (Inl e)
      then show ?thesis
        using assms Inr False by (simp add: onCacheChange_def Let_def)
    next
      case add: (Inr a)
      define pushed where
        "pushed = (if a then trackedFiles (settings w) @ [ev_path ev] else trackedFiles (settings w))"
      define w3 where "w3 = store_tracked False pushed w"
      have fresh: "a \<longrightarrow> ev_path ev \<notin> set (trackedFiles (settings w))"
        using add add_condition_fresh[of w "trackedFiles (settings w)" ev] by (cases a) simp_all
      show ?thesis
      proof (cases "remove_condition w3 pushed ev")
        case (Inl e)
        then have "fst (onCacheChange ev w) = w3"
          using assms Inr False add
          by (auto simp: onCacheChange_def Let_def pushed_def[symmetric] w3_def[symmetric])
        then show ?thesis
          using fresh by (auto simp: w3_def store_tracked_def pushed_def)
      next
        case rem: (Inr r)
        define final where "final = (if r then removeAll (ev_path ev) pushed else pushed)"
        have "onCacheChange ev w = updateTrackedFiles False (store_tracked False final w3)"
          using assms Inr False add rem
          by (auto simp: onCacheChange_def Let_def pushed_def[symmetric] w3_def[symmetric]
                         final_def[symmetric])
        then have "trackedFiles (settings (fst (onCacheChange ev w))) = final"
          by (simp add: updateTrackedFiles_frame(1) store_tracked_def)
        then show ?thesis
          using fresh by (auto simp: final_def pushed_def)
      qed
    qed
  qed
qed

lemma onCacheChange_new_day:
  assumes "lastTrackedDate (settings w) \<noteq> today w"
  shows "trackedFiles (settings (fst (onCacheChange ev w))) = trackedFiles (settings w) \<or>
         trackedFiles (settings (fst (onCacheChange ev w))) = []"
proof -
  obtain w1 r where u: "updateTrackedFiles False w = (w1, r)"
    by (cases "updateTrackedFiles False w")
  have s1: "settings w1 = settings w"
    using updateTrackedFiles_frame(1)[of False w] u by simp
  show ?thesis
  proof (cases r)
    case (Some e)
    then show ?thesis
      using u s1 assms by (simp add: onCacheChange_def Let_def)
  next
    case None
    then show ?thesis
      using onCacheChange_rolled[OF assms, of w1 ev] u
      by (auto simp: updateTrackedFiles_frame(1))
  qed
qed

lemma onCacheChange_distinct:
  assumes "distinct (trackedFiles (settings w))"
  shows "distinct (trackedFiles (settings (fst (onCacheChange ev w))))"
  using onCacheChange_same_day[of w ev] onCacheChange_new_day[of w ev] assms
  by (cases "lastTrackedDate (settings w) = today w") (auto simp: distinct_removeAll)

lemma onVaultDelete_distinct:
  assumes "distinct (trackedFiles (settings w))"
  shows "distinct (trackedFiles (settings (fst (onVaultDelete f w))))"
  using assms
  by (cases f) (simp_all add: onVaultDelete_def updateTrackedFiles_frame(1) distinct_removeAll)

lemma onVaultRename_distinct:
  assumes "distinct (trackedFiles (settings w))"
    and "p \<notin> set (trackedFiles (settings w)) \<or> p = old"
  shows "distinct (trackedFiles (settings (fst (onVaultRename (File p) old w))))"
  using assms
  by (auto simp: onVaultRename_def Let_def updateTrackedFiles_frame(1) saveSettings_def
                 distinct_removeAll)

text \<open>
  C4. The tracked set holds \<open>a.md\<close> and \<open>b.md\<close>, and \<open>a.md\<close> is renamed to \<open>b.md\<close>:
  the handler takes out the old path and pushes the new one, which the set holds
  already. The set is then \<open>b.md\<close>, \<open>b.md\<close>.
\<close>

theorem rename_onto_tracked_path_duplicates:
  "trackedFiles
     (settings (fst (onVaultRename (File ''b.md'') ''a.md''
                       (with_tracked [''a.md'', ''b.md''] example_world))))
   = [''b.md'', ''b.md'']"
  by code_simp

section \<open>The handlers under a write interval\<close>

text \<open>
  With a write interval, every run of the write routine a handler makes is a run without
  \<open>doWrite\<close>: it gets past line 208 only into the branch that appends the heading
  section. \<open>gated\<close> holds at the start of a handler and is kept by each of its steps.
\<close>

lemma resolveDailyNote_found_state:
  "snd (resolveDailyNote w) \<Longrightarrow>
   lookup_error (fst (resolveDailyNote w)) = None \<and> daily_note (fst (resolveDailyNote w)) \<noteq> None"
  by (auto simp: resolveDailyNote_def createDailyNote_def displayNotice_def getDailyNote_def Let_def
           split: option.splits prod.splits sum.splits error.splits if_splits)

lemma append_heading_section_note:
  "daily_note w \<noteq> None \<Longrightarrow> daily_note (fst (append_heading_section w)) \<noteq> None"
  by (auto simp: append_heading_section_def Let_def displayNotice_def saveSettings_def
                 vault_append_def
           split: sum.splits)

lemma updateTrackedFiles_interval_state:
  assumes "writeIntervalInMs w \<noteq> 0"
  shows "vault_ops (fst (updateTrackedFiles False w)) = vault_ops w \<or>
         (\<exists>s. vault_ops (fst (updateTrackedFiles False w)) = vault_ops w @ [Append s]) \<and>
         (daily_headings (fst (updateTrackedFiles False w)) = None \<or> heading (settings w) = []) \<and>
         lookup_error (fst (updateTrackedFiles False w)) = None \<and>
         daily_note (fst (updateTrackedFiles False w)) \<noteq> None"
proof -
  obtain w1 found where r: "resolveDailyNote (saveSettings w) = (w1, found)"
    by (cases "resolveDailyNote (saveSettings w)")
  have w1: "settings w1 = settings w" "vault_ops w1 = vault_ops w"
    "writeIntervalInMs w1 = writeIntervalInMs w"
    using resolveDailyNote_frame(1,2,4)[of "saveSettings w"] r by (simp_all add: saveSettings_def)
  have st: "found \<Longrightarrow> lookup_error w1 = None \<and> daily_note w1 \<noteq> None"
    using resolveDailyNote_found_state[of "saveSettings w"] r by simp
  show ?thesis
  proof (cases "found \<and> daily_note w1 \<noteq> None \<and>
                (daily_headings w1 = None \<or> heading (settings w1) = [])")
    case True
    then have "updateTrackedFiles False w = append_heading_section w1"
      using r by (auto simp: updateTrackedFiles_def write_tracked_def split: option.splits)
    then show ?thesis
      using append_heading_section_shape[of w1] append_heading_section_frame(4,7)[of w1]
        append_heading_section_note[of w1] True w1 st
      by auto
  next
    case False
    then have "fst (updateTrackedFiles False w) = w1"
      using r assms w1 by (auto simp: updateTrackedFiles_def write_tracked_def split: option.splits)
    then show ?thesis
      using w1 by simp
  qed
qed

lemma updateTrackedFiles_note_kept:
  assumes "writeIntervalInMs w \<noteq> 0" "lookup_error w = None" "daily_note w \<noteq> None"
  shows "lookup_error (fst (updateTrackedFiles False w)) = None \<and>
         daily_note (fst (updateTrackedFiles False w)) \<noteq> None \<and>
         daily_headings (fst (updateTrackedFiles False w)) = daily_headings w"
proof -
  let ?w1 = "saveSettings w"
  have u: "updateTrackedFiles False w = write_tracked False ?w1"
    using assms by (simp add: updateTrackedFiles_found)
  have n: "daily_note ?w1 \<noteq> None" "lookup_error ?w1 = None"
    "daily_headings ?w1 = daily_headings w" "writeIntervalInMs ?w1 \<noteq> 0"
    using assms by (simp_all add: saveSettings_def)
  have "daily_note (fst (write_tracked False ?w1)) \<noteq> None"
    using n(1,4) append_heading_section_note[of ?w1]
    by (auto simp: write_tracked_def split: option.splits)
  then show ?thesis
    using u n write_tracked_frame(4,7)[of False ?w1] by simp
qed

lemma gated_refl: "gated w w"
  by (simp add: gated_def heading_section_only_def added_ops_def)

lemma gated_settings:
  "gated w w1 \<Longrightarrow> heading s = heading (settings w1) \<Longrightarrow> gated w (w1\<lparr>settings := s\<rparr>)"
  by (auto simp: gated_def heading_section_only_def added_ops_def)

lemma gated_saveSettings: "gated w w1 \<Longrightarrow> gated w (saveSettings w1)"
  by (auto simp: gated_def heading_section_only_def added_ops_def saveSettings_def)

lemma gated_step:
  assumes g: "gated w w1" and i: "writeIntervalInMs w \<noteq> 0"
  shows "gated w (fst (updateTrackedFiles False w1))"
proof -
  let ?w2 = "fst (updateTrackedFiles False w1)"
  have i1: "writeIntervalInMs w1 \<noteq> 0"
    using g i by (simp add: gated_def)
  have fr: "settings ?w2 = settings w1" "writeIntervalInMs ?w2 = writeIntervalInMs w1"
    by (simp_all add: updateTrackedFiles_frame)
  obtain zs where zs: "vault_ops w1 = vault_ops w @ zs"
    using g by (auto simp: gated_def heading_section_only_def prefix_def)
  have a1: "added_ops w w1 = zs"
    by (simp add: added_ops_def zs)
  have zs_app: "list_all is_append zs"
    using g a1 by (simp add: gated_def heading_section_only_def)
  have zs_st: "zs \<noteq> [] \<Longrightarrow>
                 (daily_headings w1 = None \<or> heading (settings w1) = []) \<and>
                 lookup_error w1 = None \<and> daily_note w1 \<noteq> None"
    using g a1 by (auto simp: gated_def heading_section_only_def)
  have kept: "lookup_error w1 = None \<Longrightarrow> daily_note w1 \<noteq> None \<Longrightarrow>
                lookup_error ?w2 = None \<and> daily_note ?w2 \<noteq> None \<and>
                daily_headings ?w2 = daily_headings w1"
    using updateTrackedFiles_note_kept[OF i1] by simp
  have last: "lookup_error w = None \<and> daily_note w \<noteq> None \<longrightarrow>
                lookup_error ?w2 = None \<and> daily_note ?w2 \<noteq> None \<and>
                daily_headings ?w2 = daily_headings w"
    using g kept by (auto simp: gated_def)
  from updateTrackedFiles_interval_state[OF i1]
  consider (same) "vault_ops ?w2 = vault_ops w1"
    | (app) s where "vault_ops ?w2 = vault_ops w1 @ [Append s]"
        "daily_headings ?w2 = None \<or> heading (settings w1) = []"
        "lookup_error ?w2 = None" "daily_note ?w2 \<noteq> None"
    by blast
  then show ?thesis
  proof cases
    case same
    then have a2: "added_ops w ?w2 = zs" "prefix (vault_ops w) (vault_ops ?w2)"
      by (simp_all add: added_ops_def zs)
    have "zs = [] \<or> (daily_headings ?w2 = None \<or> heading (settings ?w2) = []) \<and>
            lookup_error ?w2 = None \<and> daily_note ?w2 \<noteq> None"
      using zs_st kept fr by (cases "zs = []") auto
    then show ?thesis
      using a2 zs_app fr g last by (auto simp: gated_def heading_section_only_def)
  next
    case app
    then have a2: "added_ops w ?w2 = zs @ [Append s]" "prefix (vault_ops w) (vault_ops ?w2)"
      by (simp_all add: added_ops_def zs)
    have "list_all is_append (zs @ [Append s])"
      using zs_app by (simp add: is_append_def)
    then show ?thesis
      using a2 app fr g last by (auto simp: gated_def heading_section_only_def)
  qed
qed

lemma gated_held_back:
  assumes "gated w w'" "lookup_error w = None" "daily_note w \<noteq> None"
    "daily_headings w \<noteq> None" "heading (settings w) \<noteq> []"
  shows "vault_ops w' = vault_ops w"
proof -
  have "added_ops w w' = []" and p: "prefix (vault_ops w) (vault_ops w')"
    using assms by (auto simp: gated_def heading_section_only_def)
  then show ?thesis
    using p by (auto simp: added_ops_def prefix_def)
qed

lemma updateTrackedFiles_gated:
  "writeIntervalInMs w \<noteq> 0 \<Longrightarrow> gated w (fst (updateTrackedFiles False w))"
  by (rule gated_step[OF gated_refl])

lemma onVaultDelete_gated:
  assumes "writeIntervalInMs w \<noteq> 0"
  shows "gated w (fst (onVaultDelete f w))"
proof (cases f)
  case (Folder p)
  then show ?thesis by (simp add: onVaultDelete_def gated_refl)
next
  case (File p)
  show ?thesis
    using gated_step[OF gated_settings[OF gated_refl] assms] File
    by (simp add: onVaultDelete_def gated_refl)
qed

lemma onVaultRename_gated:
  assumes "writeIntervalInMs w \<noteq> 0"
  shows "gated w (fst (onVaultRename f old w))"
proof (cases f)
  case (Folder p)
  then show ?thesis by (simp add: onVaultRename_def gated_refl)
next
  case (File p)
  let ?w1 = "saveSettings
               (w\<lparr>settings :=
                    (settings w)\<lparr>trackedFiles := removeAll old (trackedFiles (settings w)) @ [p]\<rparr>\<rparr>)"
  have g1: "gated w ?w1"
    by (rule gated_saveSettings[OF gated_settings[OF gated_refl]]) simp
  show ?thesis
    using g1 gated_step[OF g1 assms] File
    by (simp add: onVaultRename_def Let_def gated_refl)
qed

lemma onCacheChange_gated:
  assumes i: "writeIntervalInMs w \<noteq> 0"
  shows "gated w (fst (onCacheChange ev w))"
proof (cases "lastTrackedDate (settings w) = today w")
  case False
  obtain w1 r where u: "updateTrackedFiles False w = (w1, r)"
    by (cases "updateTrackedFiles False w")
  have g1: "gated w w1"
    using updateTrackedFiles_gated[OF i] u by simp
  show ?thesis
  proof (cases r)
    case (Some e)
    then show ?thesis
      using u g1 False by (simp add: onCacheChange_def Let_def)
  next
    case None
    let ?w2 = "w1\<lparr>settings := (settings w1)\<lparr>trackedFiles := [], lastTrackedDate := today w\<rparr>\<rparr>"
    have g2: "gated w ?w2"
      by (rule gated_settings[OF g1]) simp
    from onCacheChange_rolled[OF False, of w1 ev] u None
    have "fst (onCacheChange ev w) = ?w2 \<or>
          fst (onCacheChange ev w) = fst (updateTrackedFiles False ?w2)"
      by simp
    then show ?thesis
      using g2 gated_step[OF g2 i] by auto
  qed
next
  case True
  show ?thesis
  proof (cases "getDailyNote w")
    case (Inl e)
    then show ?thesis
      using True by (simp add: onCacheChange_def Let_def gated_refl)
  next
    case (Inr found)
    show ?thesis
    proof (cases "found \<and> ev_path ev = daily_path w")
      case skip: True
      then show ?thesis
        using True Inr by (simp add: onCacheChange_def Let_def gated_refl)
    next
      case noskip: False
      show ?thesis
      proof (cases "add_condition w (trackedFiles (settings w)) ev")
        case (Inl e)
        then show ?thesis
          using True Inr noskip by (simp add: onCacheChange_def Let_def gated_refl)
      next
        case add: (Inr a)
        define pushed where
          "pushed = (if a then trackedFiles (settings w) @ [ev_path ev] else trackedFiles (settings w))"
        define w3 where "w3 = store_tracked False pushed w"
        have g3: "gated w w3"
          unfolding w3_def store_tracked_def by (simp add: gated_settings[OF gated_refl])
        show ?thesis
        proof (cases "remove_condition w3 pushed ev")
          case (Inl e)
          then have "fst (onCacheChange ev w) = w3"
            using True Inr noskip add
            by (auto simp: onCacheChange_def Let_def pushed_def[symmetric] w3_def[symmetric])
          then show ?thesis
            using g3 by simp
        next
          case rem: (Inr r)
          define final where "final = (if r then removeAll (ev_path ev) pushed else pushed)"
          have oc: "onCacheChange ev w = updateTrackedFiles False (store_tracked False final w3)"
            using True Inr noskip add rem
            by (auto simp: onCacheChange_def Let_def pushed_def[symmetric] w3_def[symmetric]
                           final_def[symmetric])
          have g4: "gated w (store_tracked False final w3)"
            unfolding store_tracked_def by (simp add: gated_settings[OF g3])
          show ?thesis
            unfolding oc by (rule gated_step[OF g4 i])
        qed
      qed
    qed
  qed
qed

section \<open>The day rolls over\<close>

text \<open>
  What the rollover branch of \<open>onCacheChange\<close> does, lines 54 to 59. The current date
  differs from \<open>lastTrackedDate\<close>. The handler first runs the write routine, without
  \<open>doWrite\<close>, on the set as it stands. If that run raises, the handler ends with the
  exception and the settings are as before. If it returns, the settings get a new,
  empty array, which the \<open>push\<close> of line 75 does not reach, \<open>lastTrackedDate\<close>
  becomes the current date, and whatever is written later in the handler comes after
  what that run wrote. The run writes the set when no write interval is configured, the
  note and its heading are found and every tracked path resolves; with a write
  interval, and a note that has a heading list and a configured heading name, the test
  of line 208 holds the run back and the handler writes nothing at all.
\<close>

lemma onCacheChange_rollover:
  assumes "lastTrackedDate (settings w) \<noteq> today w"
  shows "(case updateTrackedFiles False w of
            (w1, Some e) \<Rightarrow> onCacheChange ev w = (w1, Some e) \<and> settings w1 = settings w
          | (w1, None) \<Rightarrow>
              trackedFiles (settings (fst (onCacheChange ev w))) = [] \<and>
              lastTrackedDate (settings (fst (onCacheChange ev w))) = today w \<and>
              prefix (vault_ops w1) (vault_ops (fst (onCacheChange ev w))))
         \<and> (writeIntervalInMs w = 0 \<and> heading_ready w \<and>
              list_all (resolves w) (trackedFiles (settings w)) \<longrightarrow>
              snd (updateTrackedFiles False w) = None \<and>
              length (vault_ops w) < length (vault_ops (fst (updateTrackedFiles False w))))
         \<and> (writeIntervalInMs w \<noteq> 0 \<and> lookup_error w = None \<and> daily_note w \<noteq> None \<and>
              daily_headings w \<noteq> None \<and> heading (settings w) \<noteq> [] \<longrightarrow>
              vault_ops (fst (onCacheChange ev w)) = vault_ops w)"
proof (intro conjI impI)
  obtain w1 r where u: "updateTrackedFiles False w = (w1, r)"
    by (cases "updateTrackedFiles False w")
  have s1: "settings w1 = settings w"
    using updateTrackedFiles_frame(1)[of False w] u by simp
  show "case updateTrackedFiles False w of
            (w1, Some e) \<Rightarrow> onCacheChange ev w = (w1, Some e) \<and> settings w1 = settings w
          | (w1, None) \<Rightarrow>
              trackedFiles (settings (fst (onCacheChange ev w))) = [] \<and>
              lastTrackedDate (settings (fst (onCacheChange ev w))) = today w \<and>
              prefix (vault_ops w1) (vault_ops (fst (onCacheChange ev w)))"
  proof (cases r)
    case (Some e)
    then show ?thesis
      using u s1 assms by (simp add: onCacheChange_def Let_def)
  next
    case None
    let ?w2 = "w1\<lparr>settings := (settings w1)\<lparr>trackedFiles := [], lastTrackedDate := today w\<rparr>\<rparr>"
    from onCacheChange_rolled[OF assms, of w1 ev] u None
    have "fst (onCacheChange ev w) = ?w2 \<or>
          fst (onCacheChange ev w) = fst (updateTrackedFiles False ?w2)"
      by simp
    then have "settings (fst (onCacheChange ev w)) = settings ?w2 \<and>
               prefix (vault_ops ?w2) (vault_ops (fst (onCacheChange ev w)))"
      using updateTrackedFiles_frame(1)[of False ?w2] updateTrackedFiles_ops[of ?w2 False]
      by auto
    then show ?thesis
      using u None by simp
  qed
next
  assume "writeIntervalInMs w = 0 \<and> heading_ready w \<and>
          list_all (resolves w) (trackedFiles (settings w))"
  then show "snd (updateTrackedFiles False w) = None"
    and "length (vault_ops w) < length (vault_ops (fst (updateTrackedFiles False w)))"
    using updateTrackedFiles_writes[of w False] by simp_all
next
  assume g: "writeIntervalInMs w \<noteq> 0 \<and> lookup_error w = None \<and> daily_note w \<noteq> None \<and>
             daily_headings w \<noteq> None \<and> heading (settings w) \<noteq> []"
  then have u: "updateTrackedFiles False w = (saveSettings w, None)"
    by (simp add: updateTrackedFiles_held_back)
  let ?w2 = "(saveSettings w)\<lparr>settings := (settings (saveSettings w))
                                \<lparr>trackedFiles := [], lastTrackedDate := today w\<rparr>\<rparr>"
  have "updateTrackedFiles False ?w2 = (saveSettings ?w2, None)"
    using g by (intro updateTrackedFiles_held_back) (simp_all add: saveSettings_def)
  then show "vault_ops (fst (onCacheChange ev w)) = vault_ops w"
    using onCacheChange_rolled[OF assms u, of ev] by (auto simp: saveSettings_def)
qed

text \<open>
  With no write interval the set \<open>a.md\<close>, \<open>b.md\<close> dated 2024-01-01 is written under
  the heading, then the set is empty and the date is 2024-01-02.
\<close>

lemma rollover_example:
  "writeIntervalInMs rollover_world = 0
   \<and> trackedFiles (settings rollover_world) = [''a.md'', ''b.md'']
   \<and> lastTrackedDate (settings rollover_world) = ''2024-01-01''
   \<and> today rollover_world = ''2024-01-02''
   \<and> updateTrackedFiles False rollover_world
       = (fst (updateTrackedFiles False rollover_world), None)
   \<and> vault_ops (fst (updateTrackedFiles False rollover_world))
       = [Modify (join [newline] [''# Heading'', ''- a'', ''- b''])]
   \<and> trackedFiles (settings (fst (onCacheChange example_event rollover_world))) = []
   \<and> lastTrackedDate (settings (fst (onCacheChange example_event rollover_world)))
       = ''2024-01-02''
   \<and> prefix [Modify (join [newline] [''# Heading'', ''- a'', ''- b''])]
        (vault_ops (fst (onCacheChange example_event rollover_world)))"
  by code_simp

text \<open>
  C3: on a cache-change event whose date differs from \<open>lastTrackedDate\<close>, a final
  write of the still-populated tracked set is performed, then the set is cleared and
  the date updated. The code does not do so under a write interval. The set \<open>a.md\<close>,
  \<open>b.md\<close> is dated 2024-01-01, today is 2024-01-02, the write interval is a minute,
  today's note has the heading, and both files are in the vault: a run with \<open>doWrite\<close>
  would write the two entries under the heading. The run the handler makes at line 56,
  under the comment \<open>last effort to write to file\<close>, passes no \<open>doWrite\<close> and returns
  at line 208. The handler ends without an exception, nothing has been written, the
  note is as it was, the set is empty and the date is 2024-01-02.
\<close>

theorem rollover_without_write:
  "writeIntervalInMs interval_world = 60000
   \<and> trackedFiles (settings interval_world) = [''a.md'', ''b.md'']
   \<and> lastTrackedDate (settings interval_world) = ''2024-01-01''
   \<and> today interval_world = ''2024-01-02''
   \<and> vault_ops (fst (updateTrackedFiles True interval_world))
       = [Modify (join [newline] [''# Heading'', ''- a'', ''- b''])]
   \<and> snd (onCacheChange example_event interval_world) = None
   \<and> vault_ops (fst (onCacheChange example_event interval_world)) = []
   \<and> daily_note (fst (onCacheChange example_event interval_world)) = daily_note interval_world
   \<and> trackedFiles (settings (fst (onCacheChange example_event interval_world))) = []
   \<and> lastTrackedDate (settings (fst (onCacheChange example_event interval_world)))
       = ''2024-01-02''"
  by code_simp

section \<open>When the note is written\<close>

text \<open>
  C5, as the code has it. With a write interval, a run of the write routine without
  \<open>doWrite\<close> writes nothing, or appends the heading section once, to a note whose cache
  has no heading list or under an empty heading name; and every event handler, which
  makes only such runs, adds nothing to the note but such appended heading sections.
  When moreover the note is found, its cache has a heading list and a heading name is
  configured, no handler writes. A run with \<open>doWrite\<close>, which is the run of the interval
  tick, writes when the note and its heading are found and every tracked path resolves.
  Without a write interval, and with the note and its heading found, a cache-change
  event for a file other than the daily note writes when the file and every tracked
  path resolve, the deletion of a tracked file writes when every other tracked path
  resolves, and the renaming of a tracked file writes when the new path and every other
  tracked path resolve and the template does not hold \<open>[[link]]\<close>. When the template
  holds \<open>[[link]]\<close>, a renaming writes nothing, whatever the interval.
\<close>

theorem interval_decides_writes:
  "(writeIntervalInMs w \<noteq> 0 \<longrightarrow>
      (vault_ops (fst (updateTrackedFiles False w)) = vault_ops w \<or>
       (\<exists>s. vault_ops (fst (updateTrackedFiles False w)) = vault_ops w @ [Append s]) \<and>
       (daily_headings (fst (updateTrackedFiles False w)) = None \<or> heading (settings w) = [])) \<and>
      heading_section_only w (fst (onCacheChange ev w)) \<and>
      heading_section_only w (fst (onVaultDelete f w)) \<and>
      heading_section_only w (fst (onVaultRename g old w)))
   \<and> (writeIntervalInMs w \<noteq> 0 \<and> lookup_error w = None \<and> daily_note w \<noteq> None \<and>
        daily_headings w \<noteq> None \<and> heading (settings w) \<noteq> [] \<longrightarrow>
        vault_ops (fst (onCacheChange ev w)) = vault_ops w \<and>
        vault_ops (fst (onVaultDelete f w)) = vault_ops w \<and>
        vault_ops (fst (onVaultRename g old w)) = vault_ops w)
   \<and> (heading_ready w \<and> list_all (resolves w) (trackedFiles (settings w)) \<longrightarrow>
        length (vault_ops w) < length (vault_ops (fst (updateTrackedFiles True w))))
   \<and> (writeIntervalInMs w = 0 \<and> heading_ready w \<and>
        list_all (resolves w) (ev_path ev # trackedFiles (settings w)) \<and>
        ev_path ev \<noteq> daily_path w \<longrightarrow>
        length (vault_ops w) < length (vault_ops (fst (onCacheChange ev w))))
   \<and> (writeIntervalInMs w = 0 \<and> heading_ready w \<and>
        list_all (resolves w) (removeAll p (trackedFiles (settings w))) \<and>
        p \<in> set (trackedFiles (settings w)) \<longrightarrow>
        length (vault_ops w) < length (vault_ops (fst (onVaultDelete (File p) w))))
   \<and> (writeIntervalInMs w = 0 \<and> heading_ready w \<and>
        list_all (resolves w) (q # removeAll old (trackedFiles (settings w))) \<and>
        old \<in> set (trackedFiles (settings w)) \<and>
        \<not> str_includes (outputFormat (settings w)) ''[[link]]'' \<longrightarrow>
        length (vault_ops w) < length (vault_ops (fst (onVaultRename (File q) old w))))
   \<and> (str_includes (outputFormat (settings w)) ''[[link]]'' \<longrightarrow>
        vault_ops (fst (onVaultRename g old w)) = vault_ops w)"
proof (intro conjI impI)
  assume i: "writeIntervalInMs w \<noteq> 0"
  show "vault_ops (fst (updateTrackedFiles False w)) = vault_ops w \<or>
       (\<exists>s. vault_ops (fst (updateTrackedFiles False w)) = vault_ops w @ [Append s]) \<and>
       (daily_headings (fst (updateTrackedFiles False w)) = None \<or> heading (settings w) = [])"
    by (rule updateTrackedFiles_interval[OF i])
  show "heading_section_only w (fst (onCacheChange ev w))"
    using onCacheChange_gated[OF i, of ev] by (simp add: gated_def)
  show "heading_section_only w (fst (onVaultDelete f w))"
    using onVaultDelete_gated[OF i, of f] by (simp add: gated_def)
  show "heading_section_only w (fst (onVaultRename g old w))"
    using onVaultRename_gated[OF i, of g old] by (simp add: gated_def)
next
  assume h: "writeIntervalInMs w \<noteq> 0 \<and> lookup_error w = None \<and> daily_note w \<noteq> None \<and>
             daily_headings w \<noteq> None \<and> heading (settings w) \<noteq> []"
  then have i: "writeIntervalInMs w \<noteq> 0"
    by simp
  show "vault_ops (fst (onCacheChange ev w)) = vault_ops w"
    using gated_held_back[OF onCacheChange_gated[OF i, of ev]] h by simp
  show "vault_ops (fst (onVaultDelete f w)) = vault_ops w"
    using gated_held_back[OF onVaultDelete_gated[OF i, of f]] h by simp
  show "vault_ops (fst (onVaultRename g old w)) = vault_ops w"
    using gated_held_back[OF onVaultRename_gated[OF i, of g old]] h by simp
next
  assume "heading_ready w \<and> list_all (resolves w) (trackedFiles (settings w))"
  then show "length (vault_ops w) < length (vault_ops (fst (updateTrackedFiles True w)))"
    using updateTrackedFiles_writes(2)[of w True] by simp
next
  assume "writeIntervalInMs w = 0 \<and> heading_ready w \<and>
          list_all (resolves w) (ev_path ev # trackedFiles (settings w)) \<and>
          ev_path ev \<noteq> daily_path w"
  then show "length (vault_ops w) < length (vault_ops (fst (onCacheChange ev w)))"
    using onCacheChange_writes[of w ev] by blast
next
  assume "writeIntervalInMs w = 0 \<and> heading_ready w \<and>
          list_all (resolves w) (removeAll p (trackedFiles (settings w))) \<and>
          p \<in> set (trackedFiles (settings w))"
  then show "length (vault_ops w) < length (vault_ops (fst (onVaultDelete (File p) w)))"
    using onVaultDelete_writes[of w p] by blast
next
  assume "writeIntervalInMs w = 0 \<and> heading_ready w \<and>
          list_all (resolves w) (q # removeAll old (trackedFiles (settings w))) \<and>
          old \<in> set (trackedFiles (settings w)) \<and>
          \<not> str_includes (outputFormat (settings w)) ''[[link]]''"
  then show "length (vault_ops w) < length (vault_ops (fst (onVaultRename (File q) old w)))"
    using onVaultRename_writes[of w q old] by blast
next
  assume "str_includes (outputFormat (settings w)) ''[[link]]''"
  then show "vault_ops (fst (onVaultRename g old w)) = vault_ops w"
    by (rule onVaultRename_link)
qed

text \<open>
  Under the interval of a minute: in \<open>interval_world\<close>, whose note has the heading, the
  cache-change event, the deletion of \<open>a.md\<close> and the renaming of \<open>b.md\<close> to \<open>d.md\<close>
  write nothing, and a run with \<open>doWrite\<close> writes the set; in \<open>headless_world\<close> the
  deletion of \<open>a.md\<close> appends the heading section. Without an interval: the
  cache-change event writes in \<open>example_world\<close>, the deletion of \<open>c.md\<close> in
  \<open>deleted_world\<close>, the renaming of \<open>c.md\<close> to \<open>d.md\<close> in \<open>renamed_world\<close>, and the
  renaming of \<open>a.md\<close> to \<open>b.md\<close> writes nothing in \<open>link_world\<close>.
\<close>

theorem interval_decides_writes_witness:
  "writeIntervalInMs interval_world \<noteq> 0 \<and> lookup_error interval_world = None
   \<and> daily_note interval_world \<noteq> None \<and> daily_headings interval_world \<noteq> None
   \<and> heading (settings interval_world) \<noteq> []
   \<and> heading_section_only interval_world (fst (onCacheChange example_event interval_world))
   \<and> vault_ops (fst (onCacheChange example_event interval_world)) = vault_ops interval_world
   \<and> vault_ops (fst (onVaultDelete (File ''a.md'') interval_world)) = vault_ops interval_world
   \<and> vault_ops (fst (onVaultRename (File ''d.md'') ''b.md'' interval_world))
       = vault_ops interval_world
   \<and> heading_ready interval_world
   \<and> list_all (resolves interval_world) (trackedFiles (settings interval_world))
   \<and> length (vault_ops interval_world)
       < length (vault_ops (fst (updateTrackedFiles True interval_world)))
   \<and> writeIntervalInMs headless_world \<noteq> 0
   \<and> heading_section_only headless_world (fst (onVaultDelete (File ''a.md'') headless_world))
   \<and> vault_ops (fst (onVaultDelete (File ''a.md'') headless_world))
       = [Append ([newline] @ ''# Heading'' @ [newline] @ ''- b'')]
   \<and> writeIntervalInMs example_world = 0 \<and> heading_ready example_world
   \<and> list_all (resolves example_world)
        (ev_path example_event # trackedFiles (settings example_world))
   \<and> ev_path example_event \<noteq> daily_path example_world
   \<and> length (vault_ops example_world)
       < length (vault_ops (fst (onCacheChange example_event example_world)))
   \<and> writeIntervalInMs deleted_world = 0 \<and> heading_ready deleted_world
   \<and> \<not> resolves deleted_world ''c.md''
   \<and> list_all (resolves deleted_world) (removeAll ''c.md'' (trackedFiles (settings deleted_world)))
   \<and> ''c.md'' \<in> set (trackedFiles (settings deleted_world))
   \<and> length (vault_ops deleted_world)
       < length (vault_ops (fst (onVaultDelete (File ''c.md'') deleted_world)))
   \<and> writeIntervalInMs renamed_world = 0 \<and> heading_ready renamed_world
   \<and> \<not> resolves renamed_world ''c.md''
   \<and> list_all (resolves renamed_world)
        (''d.md'' # removeAll ''c.md'' (trackedFiles (settings renamed_world)))
   \<and> ''c.md'' \<in> set (trackedFiles (settings renamed_world))
   \<and> \<not> str_includes (outputFormat (settings renamed_world)) ''[[link]]''
   \<and> length (vault_ops renamed_world)
       < length (vault_ops (fst (onVaultRename (File ''d.md'') ''c.md'' renamed_world)))
   \<and> str_includes (outputFormat (settings link_world)) ''[[link]]''
   \<and> vault_ops (fst (onVaultRename (File ''b.md'') ''a.md'' link_world)) = vault_ops link_world"
proof -
  have a: "writeIntervalInMs interval_world \<noteq> 0 \<and> lookup_error interval_world = None
     \<and> daily_note interval_world \<noteq> None \<and> daily_headings interval_world \<noteq> None
     \<and> heading (settings interval_world) \<noteq> []"
    by code_simp
  have b: "heading_ready interval_world
     \<and> list_all (resolves interval_world) (trackedFiles (settings interval_world))"
    by code_simp
  have c: "writeIntervalInMs headless_world \<noteq> 0
     \<and> vault_ops (fst (onVaultDelete (File ''a.md'') headless_world))
         = [Append ([newline] @ ''# Heading'' @ [newline] @ ''- b'')]"
    by code_simp
  have d: "writeIntervalInMs example_world = 0 \<and> heading_ready example_world
     \<and> list_all (resolves example_world)
          (ev_path example_event # trackedFiles (settings example_world))
     \<and> ev_path example_event \<noteq> daily_path example_world"
    by code_simp
  have e: "writeIntervalInMs deleted_world = 0 \<and> heading_ready deleted_world
     \<and> \<not> resolves deleted_world ''c.md''
     \<and> list_all (resolves deleted_world)
          (removeAll ''c.md'' (trackedFiles (settings deleted_world)))
     \<and> ''c.md'' \<in> set (trackedFiles (settings deleted_world))"
    by code_simp
  have f: "writeIntervalInMs renamed_world = 0 \<and> heading_ready renamed_world
     \<and> \<not> resolves renamed_world ''c.md''
     \<and> list_all (resolves renamed_world)
          (''d.md'' # removeAll ''c.md'' (trackedFiles (settings renamed_world)))
     \<and> ''c.md'' \<in> set (trackedFiles (settings renamed_world))
     \<and> \<not> str_includes (outputFormat (settings renamed_world)) ''[[link]]''"
    by code_simp
  have g: "str_includes (outputFormat (settings link_world)) ''[[link]]''"
    by code_simp
  from interval_decides_writes[of interval_world example_event "File ''a.md''"
         "File ''d.md''" "''b.md''" "''a.md''" "''d.md''"] a b
  have 1: "heading_section_only interval_world (fst (onCacheChange example_event interval_world))
     \<and> vault_ops (fst (onCacheChange example_event interval_world)) = vault_ops interval_world
     \<and> vault_ops (fst (onVaultDelete (File ''a.md'') interval_world)) = vault_ops interval_world
     \<and> vault_ops (fst (onVaultRename (File ''d.md'') ''b.md'' interval_world))
         = vault_ops interval_world
     \<and> length (vault_ops interval_world)
         < length (vault_ops (fst (updateTrackedFiles True interval_world)))"
    by blast
  from interval_decides_writes[of headless_world example_event "File ''a.md''"
         "File ''d.md''" "''b.md''" "''a.md''" "''d.md''"] c
  have 2: "heading_section_only headless_world (fst (onVaultDelete (File ''a.md'') headless_world))"
    by blast
  from interval_decides_writes[of example_world example_event "File ''a.md''"
         "File ''d.md''" "''b.md''" "''a.md''" "''d.md''"] d
  have 3: "length (vault_ops example_world)
         < length (vault_ops (fst (onCacheChange example_event example_world)))"
    by blast
  from interval_decides_writes[of deleted_world example_event "File ''c.md''"
         "File ''d.md''" "''c.md''" "''c.md''" "''d.md''"] e
  have 4: "length (vault_ops deleted_world)
         < length (vault_ops (fst (onVaultDelete (File ''c.md'') deleted_world)))"
    by blast
  from interval_decides_writes[of renamed_world example_event "File ''c.md''"
         "File ''d.md''" "''c.md''" "''c.md''" "''d.md''"] f
  have 5: "length (vault_ops renamed_world)
         < length (vault_ops (fst (onVaultRename (File ''d.md'') ''c.md'' renamed_world)))"
    by blast
  from interval_decides_writes[of link_world example_event "File ''a.md''"
         "File ''b.md''" "''a.md''" "''c.md''" "''d.md''"] g
  have 6: "vault_ops (fst (onVaultRename (File ''b.md'') ''a.md'' link_world)) = vault_ops link_world"
    by blast
  from a b c d e f g 1 2 3 4 5 6 show ?thesis
    by blast
qed

text \<open>
  C5 as the specification words it fails for a renaming under a template with
  \<open>[[link]]\<close>: no write interval is configured, the event changes the tracked set from
  \<open>a.md\<close> to \<open>b.md\<close>, and nothing is written.
\<close>

theorem rename_with_link_template_skips_write:
  "writeIntervalInMs link_world = 0
   \<and> trackedFiles (settings link_world) = [''a.md'']
   \<and> trackedFiles (settings (fst (onVaultRename (File ''b.md'') ''a.md'' link_world)))
       = [''b.md'']
   \<and> vault_ops (fst (onVaultRename (File ''b.md'') ''a.md'' link_world)) = []
   \<and> daily_note (fst (onVaultRename (File ''b.md'') ''a.md'' link_world))
       = daily_note link_world"
  by code_simp

section \<open>The daily note is missing\<close>

text \<open>
  C7. There is no daily note and the settings do not ask for one to be created. The run
  shows no notice, queues another run of itself, goes on to read the note it does not
  have and ends with a \<open>TypeError\<close>. The queued run does the same: however many runs
  the queue is given, it never empties. The tracked set stays as it was.
\<close>

theorem missing_note_retries_forever:
  "updateTrackedFiles False no_note_world =
     (no_note_world\<lparr>saved := [example_settings], pending := [False]\<rparr>, Some TypeError)
   \<and> (\<forall>n. drain n (fst (updateTrackedFiles False no_note_world)) = None)"
proof
  show "updateTrackedFiles False no_note_world =
     (no_note_world\<lparr>saved := [example_settings], pending := [False]\<rparr>, Some TypeError)"
    by code_simp
  then show "\<forall>n. drain n (fst (updateTrackedFiles False no_note_world)) = None"
    by (simp add: drain_without_note no_note_world_def example_world_def example_settings_def)
qed

section \<open>A tracked file is missing\<close>

text \<open>
  C8, as the code has it. A tracked path resolves to no file. The formatter raises for
  it, and a run of the write routine writes nothing: no entry reaches the note, the
  entries of the files that exist included. When the note and its heading are found and
  the write interval does not hold the run back, the run ends with a \<open>TypeError\<close> and
  the note is as before.
\<close>

theorem missing_file_aborts_write:
  assumes "p \<in> set (trackedFiles (settings w))" and "getAbstractFileByPath w p = None"
  shows "(\<exists>e. getFormattedOutput w p = Inl e)
         \<and> vault_ops (fst (updateTrackedFiles doWrite w)) = vault_ops w
         \<and> (heading_ready w \<and> (writeIntervalInMs w = 0 \<or> doWrite) \<longrightarrow>
              snd (updateTrackedFiles doWrite w) = Some TypeError \<and>
              daily_note (fst (updateTrackedFiles doWrite w)) = daily_note w)"
  using getFormattedOutput_missing[OF assms(2)] updateTrackedFiles_missing_ops[OF assms]
    updateTrackedFiles_missing_raises[OF assms]
  by blast

theorem missing_file_aborts_write_witness:
  "''gone.md'' \<in> set (trackedFiles (settings missing_world))
   \<and> getAbstractFileByPath missing_world ''gone.md'' = None
   \<and> heading_ready missing_world
   \<and> writeIntervalInMs missing_world = 0
   \<and> getFormattedOutput missing_world ''gone.md'' = Inl TypeError
   \<and> vault_ops (fst (updateTrackedFiles True missing_world)) = vault_ops missing_world
   \<and> snd (updateTrackedFiles True missing_world) = Some TypeError
   \<and> daily_note (fst (updateTrackedFiles True missing_world)) = daily_note missing_world"
proof -
  have a: "''gone.md'' \<in> set (trackedFiles (settings missing_world))"
    by code_simp
  have b: "getAbstractFileByPath missing_world ''gone.md'' = None"
    by code_simp
  have c: "heading_ready missing_world"
    by code_simp
  have d: "writeIntervalInMs missing_world = 0"
    by code_simp
  have e: "getFormattedOutput missing_world ''gone.md'' = Inl TypeError"
    by code_simp
  from missing_file_aborts_write[OF a b, of True] a b c d e show ?thesis
    by simp
qed

text \<open>
  C8 as the specification words it fails: with \<open>gone.md\<close> and \<open>c.md\<close> tracked
  and only \<open>c.md\<close> in the vault, the run ends with a \<open>TypeError\<close>, the entry of
  \<open>c.md\<close>, which renders as \<open>- c\<close>, is not written, and the world differs from the
  one before only by the settings saved on entry.
\<close>

theorem missing_file_crashes_write:
  "updateTrackedFiles True missing_world =
     (missing_world\<lparr>saved := [settings missing_world]\<rparr>, Some TypeError)
   \<and> getFormattedOutput missing_world ''c.md'' = Inr ''- c''"
  by code_simp

section \<open>Placeholders are replaced once\<close>

text \<open>
  C10, as the code has it. The formatter makes four \<open>replace\<close> calls, for
  \<open>[[link]]\<close>, \<open>[[name]]\<close>, \<open>[[tags]]\<close> and \<open>[[ctime]]\<close> in this order, each on the
  result of the one before. Each call replaces the leftmost occurrence of its
  placeholder in the text it is given, which is the template only for the first call,
  and keeps the text before and after that occurrence as it is (\<open>replace_leftmost\<close>,
  \<open>leftmost_Some\<close>). So of the occurrences of a placeholder in the template at most
  one is used up: the rendered line holds at least all of them but one, the second
  and later ones stay literal.
\<close>

theorem first_occurrence_only:
  assumes "getFormattedOutput w path = Inr out" and "p \<in> set placeholders"
  shows "\<exists>f. getAbstractFileByPath w path = Some f \<and>
           out = replace_leftmost ''[[ctime]]'' (ctime_ymd f)
                   (replace_leftmost ''[[tags]]''
                      (join '', '' (map (\<lambda>tag. CHR 0x5C # tag) (all_tags f)))
                      (replace_leftmost ''[[name]]'' (basename f)
                         (replace_leftmost ''[[link]]'' (markdown_link f)
                            (outputFormat (settings w))))) \<and>
           occurrences p (outputFormat (settings w)) \<le> Suc (occurrences p out)"
proof -
  obtain f where f: "getAbstractFileByPath w path = Some f"
    using assms(1)
    by (auto simp: getFormattedOutput_def split: sum.splits if_splits option.splits)
  have out:
    "out = js_replace ''[[ctime]]'' (ctime_ymd f)
             (js_replace ''[[tags]]''
                (join '', '' (map (\<lambda>tag. CHR 0x5C # tag) (all_tags f)))
                (js_replace ''[[name]]'' (basename f)
                   (js_replace ''[[link]]'' (markdown_link f) (outputFormat (settings w)))))"
    using assms(1) f
    by (auto simp: getFormattedOutput_def split: sum.splits if_splits)
  let ?s0 = "outputFormat (settings w)"
  let ?s1 = "js_replace ''[[link]]'' (markdown_link f) ?s0"
  let ?s2 = "js_replace ''[[name]]'' (basename f) ?s1"
  let ?s3 = "js_replace ''[[tags]]''
               (join '', '' (map (\<lambda>tag. CHR 0x5C # tag) (all_tags f))) ?s2"
  have 1: "occurrences p ?s0 \<le> (if p = ''[[link]]'' then 1 else 0) + occurrences p ?s1"
    by (rule occurrences_js_replace[OF assms(2)]) (simp add: placeholders_def)
  have 2: "occurrences p ?s1 \<le> (if p = ''[[name]]'' then 1 else 0) + occurrences p ?s2"
    by (rule occurrences_js_replace[OF assms(2)]) (simp add: placeholders_def)
  have 3: "occurrences p ?s2 \<le> (if p = ''[[tags]]'' then 1 else 0) + occurrences p ?s3"
    by (rule occurrences_js_replace[OF assms(2)]) (simp add: placeholders_def)
  have 4: "occurrences p ?s3 \<le> (if p = ''[[ctime]]'' then 1 else 0) + occurrences p out"
    unfolding out by (rule occurrences_js_replace[OF assms(2)]) (simp add: placeholders_def)
  from 1 2 3 4 have count: "occurrences p ?s0 \<le> Suc (occurrences p out)"
    by (auto split: if_splits)
  have chain:
    "out = replace_leftmost ''[[ctime]]'' (ctime_ymd f)
             (replace_leftmost ''[[tags]]''
                (join '', '' (map (\<lambda>tag. CHR 0x5C # tag) (all_tags f)))
                (replace_leftmost ''[[name]]'' (basename f)
                   (replace_leftmost ''[[link]]'' (markdown_link f)
                      (outputFormat (settings w)))))"
    unfolding out by (simp only: js_replace_leftmost)
  from f chain count show ?thesis
    by blast
qed

text \<open>
  The template \<open>[[name]] [[ctime]] [[name]]\<close> for the note \<open>Note\<close>, created on
  2023-05-01: the \<open>[[name]]\<close> at index 0 is replaced, the second one stays.
\<close>

theorem first_occurrence_only_witness:
  "getFormattedOutput twice_world ''Note.md'' = Inr ''Note 2023-05-01 [[name]]''
   \<and> ''[[name]]'' \<in> set placeholders
   \<and> getAbstractFileByPath twice_world ''Note.md'' = Some (example_file ''Note'')
   \<and> leftmost ''[[name]]'' (outputFormat (settings twice_world)) = Some 0
   \<and> replace_leftmost ''[[name]]'' ''Note'' ''[[name]] [[ctime]] [[name]]''
       = ''Note [[ctime]] [[name]]''
   \<and> ''Note 2023-05-01 [[name]]''
       = replace_leftmost ''[[ctime]]'' (ctime_ymd (example_file ''Note''))
           (replace_leftmost ''[[tags]]''
              (join '', '' (map (\<lambda>tag. CHR 0x5C # tag) (all_tags (example_file ''Note''))))
              (replace_leftmost ''[[name]]'' (basename (example_file ''Note''))
                 (replace_leftmost ''[[link]]'' (markdown_link (example_file ''Note''))
                    (outputFormat (settings twice_world)))))
   \<and> occurrences ''[[name]]'' (outputFormat (settings twice_world)) = 2
   \<and> occurrences ''[[name]]'' ''Note 2023-05-01 [[name]]'' = 1
   \<and> occurrences ''[[name]]'' (outputFormat (settings twice_world))
       \<le> Suc (occurrences ''[[name]]'' ''Note 2023-05-01 [[name]]'')"
proof -
  have a: "getFormattedOutput twice_world ''Note.md'' = Inr ''Note 2023-05-01 [[name]]''"
    by code_simp
  have b: "''[[name]]'' \<in> set placeholders"
    by (simp add: placeholders_def)
  have c: "occurrences ''[[name]]'' (outputFormat (settings twice_world)) = 2"
    by code_simp
  have d: "occurrences ''[[name]]'' ''Note 2023-05-01 [[name]]'' = 1"
    by code_simp
  have e: "getAbstractFileByPath twice_world ''Note.md'' = Some (example_file ''Note'')"
    by code_simp
  have g: "leftmost ''[[name]]'' (outputFormat (settings twice_world)) = Some 0"
    by code_simp
  have h: "replace_leftmost ''[[name]]'' ''Note'' ''[[name]] [[ctime]] [[name]]''
             = ''Note [[ctime]] [[name]]''"
    by code_simp
  from first_occurrence_only[OF a b] e
  have i: "''Note 2023-05-01 [[name]]''
       = replace_leftmost ''[[ctime]]'' (ctime_ymd (example_file ''Note''))
           (replace_leftmost ''[[tags]]''
              (join '', '' (map (\<lambda>tag. CHR 0x5C # tag) (all_tags (example_file ''Note''))))
              (replace_leftmost ''[[name]]'' (basename (example_file ''Note''))
                 (replace_leftmost ''[[link]]'' (markdown_link (example_file ''Note''))
                    (outputFormat (settings twice_world)))))"
    by auto
  from first_occurrence_only[OF a b]
  have j: "occurrences ''[[name]]'' (outputFormat (settings twice_world))
       \<le> Suc (occurrences ''[[name]]'' ''Note 2023-05-01 [[name]]'')"
    by blast
  from a b c d e g h i j show ?thesis
    by blast
qed

text \<open>
  C10 as written fails where a replacement brings in a placeholder. The note
  \<open>tags\<close> has the link \<open>[[tags]]\<close>; under the template \<open>[[link]] [[tags]]\<close> the call
  for \<open>[[tags]]\<close> finds the link first and replaces it, and the occurrence of
  \<open>[[tags]]\<close> in the template, its first and only one, is left in the line.
\<close>

theorem inserted_link_text_is_replaced:
  "outputFormat (settings tags_world) = ''[[link]] [[tags]]''
   \<and> getFormattedOutput tags_world ''tags.md'' = Inr (CHR 0x5C # ''#x [[tags]]'')"
  by code_simp

end
